theory Spec2Isabelle
  imports Main "HOL-Library.AList"
begin

section \<open>Strings\<close>

text \<open>
  Python strings are modelled as \<^typ>\<open>string\<close> over the ASCII range. \<open>format_name\<close> of
  \<^verbatim>\<open>todos.py\<close> is \<^verbatim>\<open>name.strip().lower().replace(" ", "_")\<close>; \<open>is_space\<close> lists the
  ASCII characters that \<^verbatim>\<open>str.strip\<close> removes.
\<close>

definition is_space :: "char \<Rightarrow> bool" where
  "is_space c = (c \<in> set [CHR 0x09, CHR 0x0A, CHR 0x0B, CHR 0x0C, CHR 0x0D,
                            CHR 0x1C, CHR 0x1D, CHR 0x1E, CHR 0x1F, CHR 0x20])"

definition strip :: "string \<Rightarrow> string" where
  "strip s = rev (dropWhile is_space (rev (dropWhile is_space s)))"

definition lower_char :: "char \<Rightarrow> char" where
  "lower_char c =
     (case map_of (zip ''ABCDEFGHIJKLMNOPQRSTUVWXYZ'' ''abcdefghijklmnopqrstuvwxyz'') c of
        Some l \<Rightarrow> l
      | None \<Rightarrow> c)"

definition lower :: "string \<Rightarrow> string" where
  "lower s = map lower_char s"

definition replace_space :: "string \<Rightarrow> string" where
  "replace_space s = map (\<lambda>c. if c = CHR '' '' then CHR ''_'' else c) s"

definition format_name :: "string \<Rightarrow> string" where
  "format_name name = replace_space (lower (strip name))"

text \<open>Python's \<^verbatim>\<open><\<close> on \<^verbatim>\<open>str\<close>: lexicographic by code point.\<close>

fun str_lt :: "string \<Rightarrow> string \<Rightarrow> bool" where
  "str_lt [] [] = False"
| "str_lt [] (y # ys) = True"
| "str_lt (x # xs) [] = False"
| "str_lt (x # xs) (y # ys) =
     ((of_char x :: nat) < of_char y \<or> (x = y \<and> str_lt xs ys))"

text \<open>Truthiness of an optional string argument (\<^verbatim>\<open>None\<close> and \<^verbatim>\<open>""\<close> are falsy).\<close>

fun truthy :: "string option \<Rightarrow> bool" where
  "truthy None = False"
| "truthy (Some s) = (s \<noteq> [])"

fun str_of :: "string option \<Rightarrow> string" where
  "str_of None = []"
| "str_of (Some s) = s"

section \<open>Time\<close>

text \<open>
  An aware \<^verbatim>\<open>datetime\<close>: the wall-clock reading, in microseconds counted from
  1970-01-01 00:00:00 on that wall clock, and the UTC offset (seconds) of the attached
  \<^verbatim>\<open>tzinfo\<close>. Comparison of aware datetimes compares the instants; adding a
  \<^verbatim>\<open>timedelta\<close> moves the wall clock and keeps the \<^verbatim>\<open>tzinfo\<close>. Python's limit of
  the years 1 to 9999 (\<^verbatim>\<open>OverflowError\<close>) is not modelled.
\<close>

record datetime =
  wall :: int
  utcoffset :: int

definition instant :: "datetime \<Rightarrow> int" where
  "instant d = wall d - 1000000 * utcoffset d"

definition dt_lt :: "datetime \<Rightarrow> datetime \<Rightarrow> bool" where
  "dt_lt a b = (instant a < instant b)"

definition timedelta_days :: "int \<Rightarrow> int" where
  "timedelta_days n = n * 86400000000"

definition dt_add :: "datetime \<Rightarrow> int \<Rightarrow> datetime" where
  "dt_add d delta = d\<lparr>wall := wall d + delta\<rparr>"

text \<open>The proleptic Gregorian calendar: day number (0 is 1970-01-01) to year, month, day and back.\<close>

definition civil_from_days :: "int \<Rightarrow> int \<times> int \<times> int" where
  "civil_from_days z0 =
     (let z = z0 + 719468;
          era = z div 146097;
          doe = z mod 146097;
          yoe = (doe - doe div 1460 + doe div 36524 - doe div 146096) div 365;
          doy = doe - (365 * yoe + yoe div 4 - yoe div 100);
          mp = (5 * doy + 2) div 153;
          d = doy - (153 * mp + 2) div 5 + 1;
          m = (if mp < 10 then mp + 3 else mp - 9);
          y = yoe + era * 400
      in (if m \<le> 2 then y + 1 else y, m, d))"

definition days_from_civil :: "int \<Rightarrow> int \<Rightarrow> int \<Rightarrow> int" where
  "days_from_civil y0 m d =
     (let y = (if m \<le> 2 then y0 - 1 else y0);
          era = y div 400;
          yoe = y mod 400;
          doy = (153 * (if m > 2 then m - 3 else m + 9) + 2) div 5 + d - 1;
          doe = yoe * 365 + yoe div 4 - yoe div 100 + doy
      in era * 146097 + doe - 719468)"

definition is_leap :: "int \<Rightarrow> bool" where
  "is_leap y = (y mod 4 = 0 \<and> (y mod 100 \<noteq> 0 \<or> y mod 400 = 0))"

definition days_in_month :: "int \<Rightarrow> int \<Rightarrow> int" where
  "days_in_month y m =
     (if m = 2 then (if is_leap y then 29 else 28)
      else if m \<in> set [4, 6, 9, 11] then 30 else 31)"

text \<open>
  The constructor \<^verbatim>\<open>datetime(year, month, day, hour, minute, second, microsecond, tzinfo)\<close>,
  with the UTC offset of the \<^verbatim>\<open>tzinfo\<close> in seconds.
\<close>

definition aware :: "int \<Rightarrow> int \<Rightarrow> int \<Rightarrow> int \<Rightarrow> int \<Rightarrow> int \<Rightarrow> int \<Rightarrow> int \<Rightarrow> datetime" where
  "aware y m d H M S us off =
     \<lparr>wall = (days_from_civil y m d * 86400 + H * 3600 + M * 60 + S) * 1000000 + us,
      utcoffset = off\<rparr>"

text \<open>
  \<^verbatim>\<open>strftime\<close> with the two patterns of the program, \<^verbatim>\<open>DATE_FMT = "%Y-%m-%d"\<close> and
  \<^verbatim>\<open>TIME_FMT = "%Y-%m-%d %X"\<close> (\<^verbatim>\<open>%X\<close> is \<^verbatim>\<open>%H:%M:%S\<close> in the C locale). The year
  is written without padding, as the C library does; month, day, hour, minute and
  second are two digits.
\<close>

datatype format = DATE_FMT | TIME_FMT

definition digit_char :: "nat \<Rightarrow> char" where
  "digit_char n = ''0123456789'' ! n"

fun show_nat :: "nat \<Rightarrow> string" where
  "show_nat n = (if n < 10 then [digit_char n] else show_nat (n div 10) @ [digit_char (n mod 10)])"

declare show_nat.simps [simp del]

definition pad2 :: "int \<Rightarrow> string" where
  "pad2 n = [digit_char (nat n div 10), digit_char (nat n mod 10)]"

definition date_str :: "datetime \<Rightarrow> string" where
  "date_str d =
     (case civil_from_days (wall d div 1000000 div 86400) of
        (y, m, dd) \<Rightarrow> show_nat (nat y) @ ''-'' @ pad2 m @ ''-'' @ pad2 dd)"

definition clock_str :: "datetime \<Rightarrow> string" where
  "clock_str d =
     (let s = (wall d div 1000000) mod 86400
      in pad2 (s div 3600) @ '':'' @ pad2 (s mod 3600 div 60) @ '':'' @ pad2 (s mod 60))"

fun strftime :: "datetime \<Rightarrow> format \<Rightarrow> string" where
  "strftime d DATE_FMT = date_str d"
| "strftime d TIME_FMT = date_str d @ '' '' @ clock_str d"

text \<open>
  The library call \<^verbatim>\<open>dateutil.parser.parse(time, PARSERINFO).astimezone(pytz.timezone(TIMEZONE))\<close>
  is a parameter of the model, of type \<open>parser\<close>: \<open>None\<close> stands for the library's
  \<^verbatim>\<open>ParserError\<close>.
\<close>

type_synonym parser = "string \<Rightarrow> datetime option"

text \<open>
  \<open>dateutil_parse\<close> is what that call returns on the strings the program writes itself:
  \<^verbatim>\<open>yyyy-mm-dd\<close>, \<^verbatim>\<open>yyyy-mm-dd HH:MM\<close> and \<^verbatim>\<open>yyyy-mm-dd HH:MM:SS\<close>. With
  \<^verbatim>\<open>PARSERINFO = parserinfo(dayfirst=True)\<close> the library resolves three numbers that start
  with a four-digit year as year, day, month whenever the third number is at most 12
  (\<^verbatim>\<open>if dayfirst and self[2] <= 12: year, day, month = self\<close> in its \<^verbatim>\<open>resolve_ymd\<close>), and as
  year, month, day otherwise; a date or time out of range is a \<^verbatim>\<open>ParserError\<close>. The parsed
  datetime is naive, so \<^verbatim>\<open>astimezone\<close> reads it in the host's local zone (offset
  \<open>host_off\<close>) and converts it to the zone of the program (offset \<open>tz_off\<close>). Every other
  string is outside this fragment and is mapped to \<open>None\<close>; the fragment is used only to
  evaluate the model at concrete inputs of these shapes and at the empty string, which the
  library rejects.
\<close>

definition digit_val :: "char \<Rightarrow> int option" where
  "digit_val c = map_of (zip ''0123456789'' [0, 1, 2, 3, 4, 5, 6, 7, 8, 9]) c"

fun number_from :: "int \<Rightarrow> string \<Rightarrow> int option" where
  "number_from acc [] = Some acc"
| "number_from acc (c # cs) =
     (case digit_val c of None \<Rightarrow> None | Some d \<Rightarrow> number_from (10 * acc + d) cs)"

definition field :: "string \<Rightarrow> nat \<Rightarrow> nat \<Rightarrow> int option" where
  "field s i n = number_from 0 (take n (drop i s))"

definition canonical_shape :: "string \<Rightarrow> bool" where
  "canonical_shape s =
     (length s \<in> set [10, 16, 19] \<and> s ! 4 = CHR ''-'' \<and> s ! 7 = CHR ''-'' \<and>
      (10 < length s \<longrightarrow> s ! 10 = CHR '' '' \<and> s ! 13 = CHR '':'') \<and>
      (16 < length s \<longrightarrow> s ! 16 = CHR '':''))"

definition dateutil_parse :: "int \<Rightarrow> int \<Rightarrow> parser" where
  "dateutil_parse host_off tz_off s =
     (if \<not> canonical_shape s then None
      else
        case (field s 0 4, field s 5 2, field s 8 2,
              if 10 < length s then field s 11 2 else Some 0,
              if 10 < length s then field s 14 2 else Some 0,
              if 16 < length s then field s 17 2 else Some 0) of
          (Some a, Some b, Some c, Some H, Some M, Some S) \<Rightarrow>
            (let (year, month, day) = (if c \<le> 12 then (a, c, b) else (a, b, c))
             in if 1 \<le> year \<and> 1 \<le> month \<and> month \<le> 12 \<and> 1 \<le> day \<and>
                   day \<le> days_in_month year month \<and> H \<le> 23 \<and> M \<le> 59 \<and> S \<le> 59
                then Some (dt_add (aware year month day H M S 0 tz_off)
                                  ((tz_off - host_off) * 1000000))
                else None)
        | _ \<Rightarrow> None)"

section \<open>Errors\<close>

text \<open>
  \<open>ToDoException\<close> carries one of the messages of \<^verbatim>\<open>todos.py\<close>; \<open>KeyError\<close> and
  \<open>TypeError\<close> are Python's own, raised on a document that lacks a field or holds a value
  of another type than the program writes.
\<close>

datatype val = Str string | Num int | StrList "string list"

datatype msg =
    PersonNameExists string
  | PersonIdExists string
  | EmptyTask
  | UnparsableTime string
  | NoTaskWithId int
  | NameNotRecognized string
  | InvalidRecurring
  | ReminderIncomplete

datatype error = ToDoException msg | KeyError val | TypeError | AttributeError

section \<open>The document store\<close>

text \<open>
  A TinyDB table: a dictionary from document ids to documents, in insertion order, and
  the cached next id. A document is a dictionary from field names to values. Both
  dictionaries are association lists; assignment to a key is \<^const>\<open>AList.update\<close>.
\<close>

type_synonym document = "(string \<times> val) list"

record table =
  docs :: "(int \<times> document) list"
  next_id :: "int option"

definition get_next_id :: "table \<Rightarrow> int \<times> table" where
  "get_next_id t =
     (case next_id t of
        Some n \<Rightarrow> (n, t\<lparr>next_id := Some (n + 1)\<rparr>)
      | None \<Rightarrow>
          (case map fst (docs t) of
             [] \<Rightarrow> (1, t\<lparr>next_id := Some 2\<rparr>)
           | i # is \<Rightarrow> (fold max is i + 1, t\<lparr>next_id := Some (fold max is i + 2)\<rparr>)))"

definition table_insert :: "table \<Rightarrow> document \<Rightarrow> int \<times> table" where
  "table_insert t d =
     (case get_next_id t of (i, t') \<Rightarrow> (i, t'\<lparr>docs := AList.update i d (docs t')\<rparr>))"

definition table_get_id :: "table \<Rightarrow> int \<Rightarrow> (int \<times> document) option" where
  "table_get_id t i = (case map_of (docs t) i of None \<Rightarrow> None | Some d \<Rightarrow> Some (i, d))"

definition table_get :: "table \<Rightarrow> (document \<Rightarrow> bool) \<Rightarrow> (int \<times> document) option" where
  "table_get t cond = find (\<lambda>(i, d). cond d) (docs t)"

definition table_search :: "table \<Rightarrow> (document \<Rightarrow> bool) \<Rightarrow> (int \<times> document) list" where
  "table_search t cond = filter (\<lambda>(i, d). cond d) (docs t)"

definition table_remove :: "table \<Rightarrow> (document \<Rightarrow> bool) \<Rightarrow> table" where
  "table_remove t cond = t\<lparr>docs := filter (\<lambda>(i, d). \<not> cond d) (docs t)\<rparr>"

fun pop_ids :: "(int \<times> document) list \<Rightarrow> int list \<Rightarrow> error + (int \<times> document) list" where
  "pop_ids ds [] = Inr ds"
| "pop_ids ds (i # is) =
     (case map_of ds i of
        None \<Rightarrow> Inl (KeyError (Num i))
      | Some d \<Rightarrow> pop_ids (AList.delete i ds) is)"

definition table_remove_ids :: "table \<Rightarrow> int list \<Rightarrow> error + table" where
  "table_remove_ids t ids =
     (case pop_ids (docs t) ids of Inl e \<Rightarrow> Inl e | Inr ds \<Rightarrow> Inr (t\<lparr>docs := ds\<rparr>))"

definition dict_update :: "document \<Rightarrow> document \<Rightarrow> document" where
  "dict_update d flds = fold (\<lambda>(k, v) acc. AList.update k v acc) flds d"

fun update_each :: "(int \<times> document) list \<Rightarrow> document \<Rightarrow> int list \<Rightarrow> error + (int \<times> document) list" where
  "update_each ds flds [] = Inr ds"
| "update_each ds flds (i # is) =
     (case map_of ds i of
        None \<Rightarrow> Inl (KeyError (Num i))
      | Some d \<Rightarrow> update_each (AList.update i (dict_update d flds) ds) flds is)"

definition table_update_ids :: "table \<Rightarrow> document \<Rightarrow> int list \<Rightarrow> error + table" where
  "table_update_ids t flds ids =
     (case update_each (docs t) flds ids of Inl e \<Rightarrow> Inl e | Inr ds \<Rightarrow> Inr (t\<lparr>docs := ds\<rparr>))"

text \<open>The test \<^verbatim>\<open>Query().k == v\<close>: false on a document without the field \<open>k\<close>.\<close>

definition field_eq :: "string \<Rightarrow> val \<Rightarrow> document \<Rightarrow> bool" where
  "field_eq k v d = (map_of d k = Some v)"

text \<open>Reading a field of a document: \<^verbatim>\<open>doc[k]\<close>.\<close>

definition get_str :: "document \<Rightarrow> string \<Rightarrow> error + string" where
  "get_str d k =
     (case map_of d k of
        None \<Rightarrow> Inl (KeyError (Str k))
      | Some (Str s) \<Rightarrow> Inr s
      | Some _ \<Rightarrow> Inl TypeError)"

definition get_strlist :: "document \<Rightarrow> string \<Rightarrow> error + string list" where
  "get_strlist d k =
     (case map_of d k of
        None \<Rightarrow> Inl (KeyError (Str k))
      | Some (StrList xs) \<Rightarrow> Inr xs
      | Some _ \<Rightarrow> Inl TypeError)"

record db =
  people :: table
  tasks :: table
  reminders :: table

section \<open>The entity layer\<close>

text \<open>
  \<^verbatim>\<open>datetime_from_string(time, format)\<close>: without a format the parsed datetime, with one
  the datetime formatted again. The \<^verbatim>\<open>ParserError\<close> becomes a \<^verbatim>\<open>ToDoException\<close>.
\<close>

definition datetime_from_string :: "parser \<Rightarrow> string \<Rightarrow> error + datetime" where
  "datetime_from_string P time =
     (case P time of
        None \<Rightarrow> Inl (ToDoException (UnparsableTime time))
      | Some dt \<Rightarrow> Inr dt)"

definition datetime_from_string_fmt :: "parser \<Rightarrow> string \<Rightarrow> format \<Rightarrow> error + string" where
  "datetime_from_string_fmt P time fmt =
     (case P time of
        None \<Rightarrow> Inl (ToDoException (UnparsableTime time))
      | Some dt \<Rightarrow> Inr (strftime dt fmt))"

text \<open>
  The pattern \<^verbatim>\<open>if _doc: return cls(_doc) else: return None\<close> of the three \<^verbatim>\<open>from_...\<close>
  lookups: an absent and an empty document are both falsy.
\<close>

definition from_doc ::
  "(int \<times> document \<Rightarrow> error + 'a) \<Rightarrow> (int \<times> document) option \<Rightarrow> error + 'a option" where
  "from_doc init r =
     (case r of
        None \<Rightarrow> Inr None
      | Some (i, d) \<Rightarrow>
          if d = [] then Inr None
          else (case init (i, d) of Inl e \<Rightarrow> Inl e | Inr x \<Rightarrow> Inr (Some x)))"

subsection \<open>Person\<close>

record Person =
  person_doc_id :: int
  person_name :: string
  pretty_name :: string
  person_id :: string

definition Person_init :: "int \<times> document \<Rightarrow> error + Person" where
  "Person_init p =
     (case p of (i, d) \<Rightarrow>
        (case get_str d ''name'' of Inl e \<Rightarrow> Inl e | Inr n \<Rightarrow>
        (case get_str d ''pretty_name'' of Inl e \<Rightarrow> Inl e | Inr pn \<Rightarrow>
        (case get_str d ''id'' of Inl e \<Rightarrow> Inl e | Inr x \<Rightarrow>
           Inr \<lparr>person_doc_id = i, person_name = n, pretty_name = pn, person_id = x\<rparr>))))"

definition Person_from_name :: "table \<Rightarrow> string \<Rightarrow> error + Person option" where
  "Person_from_name t name =
     from_doc Person_init (table_get t (field_eq ''name'' (Str (format_name name))))"

definition Person_from_id :: "table \<Rightarrow> string \<Rightarrow> error + Person option" where
  "Person_from_id t x = from_doc Person_init (table_get t (field_eq ''id'' (Str x)))"

definition new_person :: "table \<Rightarrow> string \<Rightarrow> string \<Rightarrow> string \<Rightarrow> (error + Person) \<times> table" where
  "new_person t name0 pretty x =
     (let name = format_name name0
      in case Person_from_name t name of
           Inl e \<Rightarrow> (Inl e, t)
         | Inr (Some _) \<Rightarrow> (Inl (ToDoException (PersonNameExists name)), t)
         | Inr None \<Rightarrow>
             (case Person_from_id t x of
                Inl e \<Rightarrow> (Inl e, t)
              | Inr (Some _) \<Rightarrow> (Inl (ToDoException (PersonIdExists x)), t)
              | Inr None \<Rightarrow>
                  (case table_insert t [(''name'', Str name), (''pretty_name'', Str pretty), (''id'', Str x)] of
                     (i, t') \<Rightarrow>
                       (case table_get_id t' i of
                          None \<Rightarrow> (Inl AttributeError, t')
                        | Some p \<Rightarrow> (Person_init p, t')))))"

subsection \<open>Task\<close>

record Task =
  task_doc_id :: int
  task_name :: string
  task_content :: string
  deadline :: "string option"

definition Task_init :: "int \<times> document \<Rightarrow> error + Task" where
  "Task_init p =
     (case p of (i, d) \<Rightarrow>
        (case get_str d ''name'' of Inl e \<Rightarrow> Inl e | Inr n \<Rightarrow>
        (case get_str d ''content'' of Inl e \<Rightarrow> Inl e | Inr c \<Rightarrow>
        (case map_of d ''deadline'' of
           None \<Rightarrow> Inr \<lparr>task_doc_id = i, task_name = n, task_content = c, deadline = None\<rparr>
         | Some (Str dl) \<Rightarrow> Inr \<lparr>task_doc_id = i, task_name = n, task_content = c, deadline = Some dl\<rparr>
         | Some _ \<Rightarrow> Inl TypeError))))"

definition Task_from_id :: "table \<Rightarrow> int \<Rightarrow> error + Task option" where
  "Task_from_id t task_id = from_doc Task_init (table_get_id t task_id)"

text \<open>
  \<^verbatim>\<open>Person.add_task(self, content, deadline)\<close>; \<open>t\<close> is the table of tasks. The task is
  refused when \<^verbatim>\<open>not content\<close>, that is, when the content is the empty string.
\<close>

definition add_task ::
  "parser \<Rightarrow> table \<Rightarrow> Person \<Rightarrow> string \<Rightarrow> string option \<Rightarrow> (error + Task option) \<times> table" where
  "add_task P t self content0 deadline0 =
     (if content0 = [] then (Inl (ToDoException EmptyTask), t)
      else
        case (if truthy deadline0 then deadline0 else None) of
          Some dl0 \<Rightarrow>
            (case datetime_from_string_fmt P dl0 DATE_FMT of
               Inl e \<Rightarrow> (Inl e, t)
             | Inr dl \<Rightarrow>
                 (case table_insert t [(''name'', Str (person_name self)), (''content'', Str content0),
                                       (''deadline'', Str dl)] of
                    (task_id, t') \<Rightarrow> (Task_from_id t' task_id, t')))
        | None \<Rightarrow>
            (case table_insert t [(''name'', Str (person_name self)), (''content'', Str content0)] of
               (task_id, t') \<Rightarrow> (Task_from_id t' task_id, t')))"

text \<open>
  \<^verbatim>\<open>Task.remove_task\<close> removes the task and then the reminders that satisfy
  \<^verbatim>\<open>Query().task == task_id\<close>.
\<close>

definition remove_task :: "db \<Rightarrow> int \<Rightarrow> (error + Task option) \<times> db" where
  "remove_task s task_id =
     (case Task_from_id (tasks s) task_id of
        Inl e \<Rightarrow> (Inl e, s)
      | Inr None \<Rightarrow> (Inr None, s)
      | Inr (Some task) \<Rightarrow>
          (case table_remove_ids (tasks s) [task_id] of
             Inl e \<Rightarrow> (Inl e, s)
           | Inr t \<Rightarrow>
               (Inr (Some task),
                s\<lparr>tasks := t,
                  reminders := table_remove (reminders s) (field_eq ''task'' (Num task_id))\<rparr>)))"

text \<open>
  \<^verbatim>\<open>Person.remove_person\<close>: the person goes first; then, for every task found under the
  name, the reminders that satisfy \<^verbatim>\<open>Query().name == name\<close> and the task itself.
\<close>

fun remove_person_tasks :: "string \<Rightarrow> (int \<times> document) list \<Rightarrow> db \<Rightarrow> (error + unit) \<times> db" where
  "remove_person_tasks name [] s = (Inr (), s)"
| "remove_person_tasks name (task # rest) s =
     (let s1 = s\<lparr>reminders := table_remove (reminders s) (field_eq ''name'' (Str name))\<rparr>
      in case remove_task s1 (fst task) of
           (Inl e, s2) \<Rightarrow> (Inl e, s2)
         | (Inr _, s2) \<Rightarrow> remove_person_tasks name rest s2)"

definition remove_person :: "db \<Rightarrow> string \<Rightarrow> (error + unit) \<times> db" where
  "remove_person s name0 =
     (let name = format_name name0;
          s1 = s\<lparr>people := table_remove (people s) (field_eq ''name'' (Str name))\<rparr>
      in remove_person_tasks name (table_search (tasks s1) (field_eq ''name'' (Str name))) s1)"

subsection \<open>Reminder\<close>

record Reminder =
  doc_id :: int
  time :: string
  names :: "string list"
  recurring :: string
  content :: string
  task_id :: "int option"

definition recurring_options :: "string list" where
  "recurring_options = [''daily'', ''weekly'', ''monthly'', ''yearly'']"

definition Reminder_init :: "int \<times> document \<Rightarrow> error + Reminder" where
  "Reminder_init p =
     (case p of (i, d) \<Rightarrow>
        (case get_str d ''time'' of Inl e \<Rightarrow> Inl e | Inr tm \<Rightarrow>
        (case get_strlist d ''names'' of Inl e \<Rightarrow> Inl e | Inr ns \<Rightarrow>
        (case get_str d ''recurring'' of Inl e \<Rightarrow> Inl e | Inr rc \<Rightarrow>
        (case get_str d ''content'' of Inl e \<Rightarrow> Inl e | Inr c \<Rightarrow>
        (case map_of d ''task_id'' of
           None \<Rightarrow> Inr \<lparr>doc_id = i, time = tm, names = ns, recurring = rc, content = c, task_id = None\<rparr>
         | Some (Num k) \<Rightarrow>
             Inr \<lparr>doc_id = i, time = tm, names = ns, recurring = rc, content = c, task_id = Some k\<rparr>
         | Some _ \<Rightarrow> Inl TypeError))))))"

definition Reminder_from_id :: "table \<Rightarrow> int \<Rightarrow> error + Reminder option" where
  "Reminder_from_id t reminder_id = from_doc Reminder_init (table_get_id t reminder_id)"

fun check_names :: "table \<Rightarrow> string list \<Rightarrow> error + unit" where
  "check_names t [] = Inr ()"
| "check_names t (name # rest) =
     (case Person_from_name t name of
        Inl e \<Rightarrow> Inl e
      | Inr person \<Rightarrow>
          if name \<noteq> [] \<and> person = None then Inl (ToDoException (NameNotRecognized name))
          else check_names t rest)"

text \<open>
  \<^verbatim>\<open>Reminder.new_reminder(time, names, recurring, content, task_id)\<close>. The optional
  arguments are \<^verbatim>\<open>None\<close> or a value; \<^verbatim>\<open>if task_id\<close> is false for \<^verbatim>\<open>None\<close> and for 0.
\<close>

definition new_reminder ::
  "parser \<Rightarrow> db \<Rightarrow> string option \<Rightarrow> string list \<Rightarrow> string option \<Rightarrow> string option \<Rightarrow> int option
     \<Rightarrow> (error + Reminder option) \<times> db" where
  "new_reminder P s time0 names0 recurring0 content0 task_id0 =
     (let names1 = map format_name (filter (\<lambda>name. name \<noteq> []) names0);
          linked = (case task_id0 of None \<Rightarrow> None | Some k \<Rightarrow> if k = 0 then None else Some k)
      in
      case (case linked of
              None \<Rightarrow> Inr (time0, names1, content0)
            | Some k \<Rightarrow>
                (case Task_from_id (tasks s) k of
                   Inl e \<Rightarrow> Inl e
                 | Inr None \<Rightarrow> Inl (ToDoException (NoTaskWithId k))
                 | Inr (Some task) \<Rightarrow>
                     Inr (if \<not> truthy time0 \<and> truthy (deadline task)
                          then Some (str_of (deadline task) @ '' 10:00'') else time0,
                          if task_name task \<notin> set names1 then task_name task # names1 else names1,
                          if \<not> truthy content0 then Some (task_content task) else content0))) of
        Inl e \<Rightarrow> (Inl e, s)
      | Inr (time1, names2, content1) \<Rightarrow>
          (case (if truthy time1 then
                   (case datetime_from_string_fmt P (str_of time1) TIME_FMT of
                      Inl e \<Rightarrow> Inl e | Inr tm \<Rightarrow> Inr (Some tm))
                 else Inr time1) of
             Inl e \<Rightarrow> (Inl e, s)
           | Inr time2 \<Rightarrow>
               (case check_names (people s) names2 of
                  Inl e \<Rightarrow> (Inl e, s)
                | Inr _ \<Rightarrow>
                    (case (if truthy recurring0 then
                             (if lower (str_of recurring0) \<in> set recurring_options
                              then Inr (lower (str_of recurring0))
                              else Inl (ToDoException InvalidRecurring))
                           else Inr ''off'') of
                       Inl e \<Rightarrow> (Inl e, s)
                     | Inr recurring1 \<Rightarrow>
                         if \<not> (truthy time2 \<and> names2 \<noteq> [] \<and> truthy content1)
                         then (Inl (ToDoException ReminderIncomplete), s)
                         else
                           (case table_insert (reminders s)
                                   ([(''time'', Str (str_of time2)), (''names'', StrList names2),
                                     (''content'', Str (str_of content1)), (''recurring'', Str recurring1)]
                                    @ (case linked of None \<Rightarrow> [] | Some k \<Rightarrow> [(''task_id'', Num k)])) of
                              (reminder_id, t') \<Rightarrow>
                                (Reminder_from_id t' reminder_id, s\<lparr>reminders := t'\<rparr>))))))"

definition remove_reminder :: "table \<Rightarrow> int \<Rightarrow> (error + Reminder option) \<times> table" where
  "remove_reminder t reminder_id =
     (case Reminder_from_id t reminder_id of
        Inl e \<Rightarrow> (Inl e, t)
      | Inr None \<Rightarrow> (Inr None, t)
      | Inr (Some reminder) \<Rightarrow>
          (case table_remove_ids t [reminder_id] of
             Inl e \<Rightarrow> (Inl e, t)
           | Inr t' \<Rightarrow> (Inr (Some reminder), t')))"

section \<open>The reminder scheduler\<close>

text \<open>
  The loops \<^verbatim>\<open>while next_time < dt_now: next_time += datetime.timedelta(days=n)\<close>. The source
  has them with \<open>n = 1\<close> and \<open>n = 7\<close> only; the test \<open>0 < n\<close> makes the function total for
  every \<open>n\<close>.
\<close>

function catch_up :: "int \<Rightarrow> datetime \<Rightarrow> datetime \<Rightarrow> datetime" where
  "catch_up n dt_now next_time =
     (if dt_lt next_time dt_now \<and> 0 < n
      then catch_up n dt_now (dt_add next_time (timedelta_days n))
      else next_time)"
  by pat_completeness auto
termination
  by (relation "measure (\<lambda>(n, dt_now, next_time). nat (instant dt_now - instant next_time))")
     (auto simp: dt_lt_def dt_add_def instant_def timedelta_days_def)

declare catch_up.simps [simp del]

text \<open>
  The state of one run of \<^verbatim>\<open>update_reminders\<close>: the \<^verbatim>\<open>Reminder\<close> objects built from the
  table (the address of an object is its index in \<open>heap\<close>), the list
  \<^verbatim>\<open>reminders_to_show\<close> of references to them, and the table of reminders.
\<close>

record poll_state =
  heap :: "Reminder list"
  reminders_to_show :: "nat list"
  tbl :: table

text \<open>
  \<^verbatim>\<open>set_new_time(self, time)\<close> parses and formats the time again, assigns it to the
  object and updates the document of the object.
\<close>

definition set_new_time :: "parser \<Rightarrow> nat \<Rightarrow> string \<Rightarrow> poll_state \<Rightarrow> (error + unit) \<times> poll_state" where
  "set_new_time P self time0 st =
     (case datetime_from_string_fmt P time0 TIME_FMT of
        Inl e \<Rightarrow> (Inl e, st)
      | Inr tm \<Rightarrow>
          (let st1 = st\<lparr>heap := (heap st)[self := (heap st ! self)\<lparr>time := tm\<rparr>]\<rparr>
           in case table_update_ids (tbl st1) [(''time'', Str tm)] [doc_id (heap st1 ! self)] of
                Inl e \<Rightarrow> (Inl e, st1)
              | Inr t' \<Rightarrow> (Inr (), st1\<lparr>tbl := t'\<rparr>)))"

text \<open>
  The chain \<^verbatim>\<open>if reminder.recurring == 'daily': ... elif ... else:\<close> of the loop body: the
  catch-up loop of the branch taken, or \<open>None\<close> for the \<^verbatim>\<open>else\<close> branch (the reminder is
  not recurring). The branches for \<^verbatim>\<open>'monthly'\<close> and \<^verbatim>\<open>'yearly'\<close> add
  \<^verbatim>\<open>datetime.timedelta(days=1)\<close>, as the source does.
\<close>

definition next_occurrence :: "datetime \<Rightarrow> string \<Rightarrow> datetime \<Rightarrow> datetime option" where
  "next_occurrence dt_now rec next_time =
     (if rec = ''daily'' then Some (catch_up 1 dt_now next_time)
      else if rec = ''weekly'' then Some (catch_up 7 dt_now next_time)
      else if rec = ''monthly'' then Some (catch_up 1 dt_now next_time)
      else if rec = ''yearly'' then Some (catch_up 1 dt_now next_time)
      else None)"

text \<open>The body of the loop \<^verbatim>\<open>for reminder in reminders\<close>, for the object at address \<open>a\<close>.\<close>

definition poll_step ::
  "parser \<Rightarrow> datetime \<Rightarrow> string \<Rightarrow> nat \<Rightarrow> poll_state \<Rightarrow> (error + unit) \<times> poll_state" where
  "poll_step P dt_now now a st =
     (let reminder = heap st ! a
      in if str_lt (time reminder) now then
           (let st1 = st\<lparr>reminders_to_show := reminders_to_show st @ [a]\<rparr>
            in case datetime_from_string P (time reminder) of
                 Inl e \<Rightarrow> (Inl e, st1)
               | Inr next_time \<Rightarrow>
                   (case next_occurrence dt_now (recurring reminder) next_time of
                      None \<Rightarrow>
                        (case remove_reminder (tbl st1) (doc_id reminder) of
                           (Inl e, t') \<Rightarrow> (Inl e, st1\<lparr>tbl := t'\<rparr>)
                         | (Inr _, t') \<Rightarrow> (Inr (), st1\<lparr>tbl := t'\<rparr>))
                    | Some next_time' \<Rightarrow> set_new_time P a (strftime next_time' TIME_FMT) st1))
         else (Inr (), st))"

fun poll_loop ::
  "parser \<Rightarrow> datetime \<Rightarrow> string \<Rightarrow> nat list \<Rightarrow> poll_state \<Rightarrow> (error + unit) \<times> poll_state" where
  "poll_loop P dt_now now [] st = (Inr (), st)"
| "poll_loop P dt_now now (a # rest) st =
     (case poll_step P dt_now now a st of
        (Inl e, st') \<Rightarrow> (Inl e, st')
      | (Inr _, st') \<Rightarrow> poll_loop P dt_now now rest st')"

text \<open>The comprehension \<^verbatim>\<open>[cls(_reminder) for _reminder in cls.table.all()]\<close>.\<close>

fun init_all :: "(int \<times> document) list \<Rightarrow> error + Reminder list" where
  "init_all [] = Inr []"
| "init_all (p # ps) =
     (case Reminder_init p of
        Inl e \<Rightarrow> Inl e
      | Inr r \<Rightarrow> (case init_all ps of Inl e \<Rightarrow> Inl e | Inr rs \<Rightarrow> Inr (r # rs)))"

text \<open>
  \<^verbatim>\<open>Reminder.update_reminders()\<close>, the poll of the scheduler. \<open>dt_now\<close> is the reading of
  \<^verbatim>\<open>datetime.datetime.now(pytz.timezone("Europe/Brussels"))\<close>. The result is the list
  \<^verbatim>\<open>reminders_to_show\<close> as the caller sees it, that is, the objects behind the references
  when the function returns, and the table it leaves; an exception leaves the table as
  it was when it was raised.
\<close>

definition update_reminders :: "parser \<Rightarrow> datetime \<Rightarrow> table \<Rightarrow> (error + Reminder list) \<times> table" where
  "update_reminders P dt_now t =
     (case init_all (docs t) of
        Inl e \<Rightarrow> (Inl e, t)
      | Inr rs \<Rightarrow>
          (case poll_loop P dt_now (strftime dt_now TIME_FMT) [0..<length rs]
                  \<lparr>heap = rs, reminders_to_show = [], tbl = t\<rparr> of
             (Inl e, st) \<Rightarrow> (Inl e, tbl st)
           | (Inr _, st) \<Rightarrow> (Inr (map (\<lambda>a. heap st ! a) (reminders_to_show st)), tbl st)))"

section \<open>Example inputs\<close>

text \<open>
  Concrete inputs at which the model is evaluated: the parser of a host whose local zone is
  the zone of the program, at UTC+1, and reminder documents as \<open>new_reminder\<close> writes them.
\<close>

definition example_parser :: parser where
  "example_parser = dateutil_parse 3600 3600"

definition reminder_doc :: "string \<Rightarrow> string \<Rightarrow> document" where
  "reminder_doc tm rc =
     [(''time'', Str tm), (''names'', StrList [''alice'']), (''content'', Str ''call''),
      (''recurring'', Str rc)]"

definition example_reminder :: "int \<Rightarrow> string \<Rightarrow> string \<Rightarrow> Reminder" where
  "example_reminder i tm rc =
     \<lparr>doc_id = i, time = tm, names = [''alice''], recurring = rc, content = ''call'',
      task_id = None\<rparr>"


definition empty_table :: table where
  "empty_table = \<lparr>docs = [], next_id = None\<rparr>"

text \<open>
  A store with one person, registered as \<^verbatim>\<open>Alice\<close>, and one task of hers, as
  \<open>new_person\<close> and \<open>add_task\<close> leave it.
\<close>

definition example_person :: Person where
  "example_person =
     \<lparr>person_doc_id = 1, person_name = ''alice'', pretty_name = ''Alice'', person_id = ''42''\<rparr>"

definition example_task :: Task where
  "example_task =
     \<lparr>task_doc_id = 1, task_name = ''alice'', task_content = ''buy milk'',
      deadline = Some ''2024-06-01''\<rparr>"

definition example_db :: db where
  "example_db =
     \<lparr>people = \<lparr>docs = [(1, [(''name'', Str ''alice''), (''pretty_name'', Str ''Alice''),
                               (''id'', Str ''42'')])],
                next_id = Some 2\<rparr>,
      tasks = \<lparr>docs = [(1, [(''name'', Str ''alice''), (''content'', Str ''buy milk''),
                              (''deadline'', Str ''2024-06-01'')])],
               next_id = Some 2\<rparr>,
      reminders = empty_table\<rparr>"

section \<open>Lemmas\<close>

subsection \<open>Tables and documents\<close>

lemma pop_ids_single:
  "pop_ids ds [i] =
     (case map_of ds i of None \<Rightarrow> Inl (KeyError (Num i)) | Some d \<Rightarrow> Inr (AList.delete i ds))"
  by (simp split: option.splits)

lemma update_each_single:
  "update_each ds flds [i] =
     (case map_of ds i of None \<Rightarrow> Inl (KeyError (Num i))
      | Some d \<Rightarrow> Inr (AList.update i (dict_update d flds) ds))"
  by (simp split: option.splits)

lemma dict_update_single: "dict_update d [(k, v)] = AList.update k v d"
  by (simp add: dict_update_def)

lemma Reminder_init_Inr_iff:
  "Reminder_init (i, d) = Inr r \<longleftrightarrow>
     doc_id r = i \<and>
     map_of d ''time'' = Some (Str (time r)) \<and>
     map_of d ''names'' = Some (StrList (names r)) \<and>
     map_of d ''recurring'' = Some (Str (recurring r)) \<and>
     map_of d ''content'' = Some (Str (content r)) \<and>
     map_of d ''task_id'' = map_option Num (task_id r)"
proof (cases r)
  case (fields i' tm ns rc c k)
  show ?thesis
    unfolding fields Reminder_init_def get_str_def get_strlist_def
    by (cases k) (auto split: option.splits val.splits)
qed

lemma Reminder_init_doc_id: "Reminder_init (i, d) = Inr r \<Longrightarrow> doc_id r = i"
  by (simp add: Reminder_init_Inr_iff)

lemma Reminder_init_nonempty: "Reminder_init (i, d) = Inr r \<Longrightarrow> d \<noteq> []"
  by (auto simp: Reminder_init_Inr_iff)

lemma Reminder_init_update_time:
  "Reminder_init (i, d) = Inr r \<Longrightarrow>
     Reminder_init (i, AList.update ''time'' (Str tm) d) = Inr (r\<lparr>time := tm\<rparr>)"
  by (simp add: Reminder_init_Inr_iff update_conv')

lemma init_all_length: "init_all ps = Inr rs \<Longrightarrow> length rs = length ps"
  by (induction ps arbitrary: rs) (auto split: sum.splits)

lemma init_all_nth:
  "init_all ps = Inr rs \<Longrightarrow> k < length ps \<Longrightarrow> Reminder_init (ps ! k) = Inr (rs ! k)"
proof (induction ps arbitrary: rs k)
  case Nil
  then show ?case by simp
next
  case (Cons p ps)
  then show ?case by (cases k) (auto split: sum.splits)
qed

lemma init_all_ids: "init_all ps = Inr rs \<Longrightarrow> map doc_id rs = map fst ps"
proof (induction ps arbitrary: rs)
  case Nil
  then show ?case by simp
next
  case (Cons p ps)
  then show ?case
    by (cases p) (auto split: sum.splits dest: Reminder_init_doc_id)
qed

subsection \<open>Frames of one step\<close>

lemma nth_update_other:
  "\<not> (a < length xs \<and> a = b) \<Longrightarrow> xs[a := x] ! b = xs ! b"
  by (cases "a < length xs") (auto simp: list_update_beyond)

lemma nth_update_time_doc_id [simp]:
  "doc_id (xs[a := (xs ! a)\<lparr>time := tm\<rparr>] ! b) = doc_id (xs ! b)"
  by (cases "a < length xs \<and> a = b") (auto simp: nth_update_other)

lemma nth_update_time_recurring [simp]:
  "recurring (xs[a := (xs ! a)\<lparr>time := tm\<rparr>] ! b) = recurring (xs ! b)"
  by (cases "a < length xs \<and> a = b") (auto simp: nth_update_other)

lemma set_new_time_len:
  "length (heap (snd (set_new_time P a s st))) = length (heap st)"
  by (simp add: set_new_time_def Let_def table_update_ids_def split: sum.split)

lemma set_new_time_show:
  "reminders_to_show (snd (set_new_time P a s st)) = reminders_to_show st"
  by (simp add: set_new_time_def Let_def table_update_ids_def split: sum.split)

lemma set_new_time_heap_other:
  "b \<noteq> a \<Longrightarrow> heap (snd (set_new_time P a s st)) ! b = heap st ! b"
  by (simp add: set_new_time_def Let_def table_update_ids_def split: sum.split)

lemma set_new_time_doc_id:
  "doc_id (heap (snd (set_new_time P a s st)) ! b) = doc_id (heap st ! b)"
  by (simp add: set_new_time_def Let_def table_update_ids_def split: sum.split)

lemma set_new_time_recurring:
  "recurring (heap (snd (set_new_time P a s st)) ! b) = recurring (heap st ! b)"
  by (simp add: set_new_time_def Let_def table_update_ids_def split: sum.split)

lemma set_new_time_tbl_other:
  "i \<noteq> doc_id (heap st ! a) \<Longrightarrow>
     map_of (docs (tbl (snd (set_new_time P a s st)))) i = map_of (docs (tbl st)) i"
  by (simp add: set_new_time_def Let_def table_update_ids_def update_conv'
           split: sum.split option.split)

lemma remove_reminder_tbl_other:
  "i \<noteq> k \<Longrightarrow> map_of (docs (snd (remove_reminder t k))) i = map_of (docs t) i"
  by (simp add: remove_reminder_def table_remove_ids_def delete_conv'
           split: sum.split option.split)

lemma remove_reminder_found:
  "map_of (docs t) k = Some d \<Longrightarrow> Reminder_init (k, d) = Inr r \<Longrightarrow>
     remove_reminder t k = (Inr (Some r), t\<lparr>docs := AList.delete k (docs t)\<rparr>)"
  by (frule Reminder_init_nonempty)
     (simp add: remove_reminder_def Reminder_from_id_def table_get_id_def from_doc_def
                table_remove_ids_def)

lemma poll_step_snd:
  "snd (poll_step P dt_now now a st) =
     (if str_lt (time (heap st ! a)) now then
        (case P (time (heap st ! a)) of
           None \<Rightarrow> st\<lparr>reminders_to_show := reminders_to_show st @ [a]\<rparr>
         | Some next_time \<Rightarrow>
             (case next_occurrence dt_now (recurring (heap st ! a)) next_time of
                None \<Rightarrow>
                  st\<lparr>reminders_to_show := reminders_to_show st @ [a],
                     tbl := snd (remove_reminder (tbl st) (doc_id (heap st ! a)))\<rparr>
              | Some next_time' \<Rightarrow>
                  snd (set_new_time P a (strftime next_time' TIME_FMT)
                         (st\<lparr>reminders_to_show := reminders_to_show st @ [a]\<rparr>))))
      else st)"
  by (simp add: poll_step_def Let_def datetime_from_string_def
           split: option.split sum.split prod.split)

lemma poll_step_len:
  "length (heap (snd (poll_step P dt_now now a st))) = length (heap st)"
  by (simp add: poll_step_snd set_new_time_len split: option.split)

lemma poll_step_show:
  "reminders_to_show (snd (poll_step P dt_now now a st)) =
     reminders_to_show st @ (if str_lt (time (heap st ! a)) now then [a] else [])"
  by (simp add: poll_step_snd set_new_time_show split: option.split)

lemma poll_step_heap_other:
  "b \<noteq> a \<Longrightarrow> heap (snd (poll_step P dt_now now a st)) ! b = heap st ! b"
  by (simp add: poll_step_snd set_new_time_heap_other split: option.split)

lemma poll_step_doc_id:
  "doc_id (heap (snd (poll_step P dt_now now a st)) ! b) = doc_id (heap st ! b)"
  by (simp add: poll_step_snd set_new_time_doc_id split: option.split)

lemma poll_step_recurring:
  "recurring (heap (snd (poll_step P dt_now now a st)) ! b) = recurring (heap st ! b)"
  by (simp add: poll_step_snd set_new_time_recurring split: option.split)

lemma poll_step_tbl_other:
  "i \<noteq> doc_id (heap st ! a) \<Longrightarrow>
     map_of (docs (tbl (snd (poll_step P dt_now now a st)))) i = map_of (docs (tbl st)) i"
  by (simp add: poll_step_snd set_new_time_tbl_other remove_reminder_tbl_other
           split: option.split)

subsection \<open>Frames of the loop\<close>

lemma poll_loop_append:
  "poll_loop P n now (xs @ ys) st =
     (case poll_loop P n now xs st of
        (Inl e, st') \<Rightarrow> (Inl e, st')
      | (Inr u, st') \<Rightarrow> poll_loop P n now ys st')"
  by (induction xs arbitrary: st) (auto split: prod.splits sum.splits)

lemma poll_loop_Cons_snd:
  "snd (poll_loop P n now (a # rest) st) =
     (case fst (poll_step P n now a st) of
        Inl e \<Rightarrow> snd (poll_step P n now a st)
      | Inr u \<Rightarrow> snd (poll_loop P n now rest (snd (poll_step P n now a st))))"
  by (simp split: prod.split sum.split)

lemma poll_loop_Cons_fst:
  "fst (poll_loop P n now (a # rest) st) =
     (case fst (poll_step P n now a st) of
        Inl e \<Rightarrow> Inl e
      | Inr u \<Rightarrow> fst (poll_loop P n now rest (snd (poll_step P n now a st))))"
  by (simp split: prod.split sum.split)

declare poll_loop.simps(2) [simp del]

lemma poll_loop_len:
  "length (heap (snd (poll_loop P n now as st))) = length (heap st)"
  by (induction as arbitrary: st)
     (simp_all add: poll_loop_Cons_snd poll_step_len split: sum.split)

lemma poll_loop_doc_id:
  "doc_id (heap (snd (poll_loop P n now as st)) ! b) = doc_id (heap st ! b)"
  by (induction as arbitrary: st)
     (simp_all add: poll_loop_Cons_snd poll_step_doc_id split: sum.split)

lemma poll_loop_recurring:
  "recurring (heap (snd (poll_loop P n now as st)) ! b) = recurring (heap st ! b)"
  by (induction as arbitrary: st)
     (simp_all add: poll_loop_Cons_snd poll_step_recurring split: sum.split)

lemma poll_loop_heap_other:
  "b \<notin> set as \<Longrightarrow> heap (snd (poll_loop P n now as st)) ! b = heap st ! b"
  by (induction as arbitrary: st)
     (simp_all add: poll_loop_Cons_snd poll_step_heap_other split: sum.split)

lemma poll_loop_tbl_other:
  "i \<notin> (\<lambda>a. doc_id (heap st ! a)) ` set as \<Longrightarrow>
     map_of (docs (tbl (snd (poll_loop P n now as st)))) i = map_of (docs (tbl st)) i"
proof (induction as arbitrary: st)
  case Nil
  then show ?case by simp
next
  case (Cons a as)
  let ?s1 = "snd (poll_step P n now a st)"
  have 1: "map_of (docs (tbl ?s1)) i = map_of (docs (tbl st)) i"
    using Cons.prems by (simp add: poll_step_tbl_other)
  have "i \<notin> (\<lambda>a. doc_id (heap ?s1 ! a)) ` set as"
    using Cons.prems by (simp add: poll_step_doc_id image_iff)
  then have 2: "map_of (docs (tbl (snd (poll_loop P n now as ?s1)))) i = map_of (docs (tbl ?s1)) i"
    by (rule Cons.IH)
  show ?case
    by (simp add: poll_loop_Cons_snd 1 2 split: sum.split)
qed

lemma poll_loop_show:
  "distinct as \<Longrightarrow> fst (poll_loop P n now as st) = Inr u \<Longrightarrow>
     reminders_to_show (snd (poll_loop P n now as st)) =
       reminders_to_show st @ filter (\<lambda>a. str_lt (time (heap st ! a)) now) as"
proof (induction as arbitrary: st)
  case Nil
  then show ?case by simp
next
  case (Cons a as)
  let ?s1 = "snd (poll_step P n now a st)"
  from Cons.prems obtain v where ok: "fst (poll_step P n now a st) = Inr v"
    and rest: "fst (poll_loop P n now as ?s1) = Inr u"
    by (auto simp: poll_loop_Cons_fst split: sum.splits)
  have "reminders_to_show (snd (poll_loop P n now as ?s1)) =
          reminders_to_show ?s1 @ filter (\<lambda>b. str_lt (time (heap ?s1 ! b)) now) as"
    using Cons.prems rest by (intro Cons.IH) auto
  moreover have "heap ?s1 ! b = heap st ! b" if "b \<in> set as" for b
  proof -
    from that Cons.prems have "b \<noteq> a" by auto
    then show ?thesis by (rule poll_step_heap_other)
  qed
  then have "filter (\<lambda>b. str_lt (time (heap ?s1 ! b)) now) as =
             filter (\<lambda>b. str_lt (time (heap st ! b)) now) as"
    by (intro filter_cong refl) simp
  ultimately show ?case
    using ok by (simp add: poll_loop_Cons_snd poll_step_show)
qed

lemma poll_loop_append_fst:
  "fst (poll_loop P n now (xs @ ys) st) =
     (case fst (poll_loop P n now xs st) of
        Inl e \<Rightarrow> Inl e
      | Inr u \<Rightarrow> fst (poll_loop P n now ys (snd (poll_loop P n now xs st))))"
  by (simp add: poll_loop_append split: prod.split sum.split)

lemma poll_loop_append_snd:
  "snd (poll_loop P n now (xs @ ys) st) =
     (case fst (poll_loop P n now xs st) of
        Inl e \<Rightarrow> snd (poll_loop P n now xs st)
      | Inr u \<Rightarrow> snd (poll_loop P n now ys (snd (poll_loop P n now xs st))))"
  by (simp add: poll_loop_append split: prod.split sum.split)

lemma poll_loop_at:
  assumes dist: "distinct as" and mem: "a \<in> set as"
    and inj: "inj_on (\<lambda>b. doc_id (heap st ! b)) (set as)"
    and ok: "fst (poll_loop P n now as st) = Inr u"
  obtains s1 where
    "fst (poll_step P n now a s1) = Inr ()"
    "heap s1 ! a = heap st ! a"
    "length (heap s1) = length (heap st)"
    "map_of (docs (tbl s1)) (doc_id (heap st ! a)) = map_of (docs (tbl st)) (doc_id (heap st ! a))"
    "heap (snd (poll_loop P n now as st)) ! a = heap (snd (poll_step P n now a s1)) ! a"
    "map_of (docs (tbl (snd (poll_loop P n now as st)))) (doc_id (heap st ! a)) =
       map_of (docs (tbl (snd (poll_step P n now a s1)))) (doc_id (heap st ! a))"
proof -
  from mem obtain pre post where as: "as = pre @ a # post"
    by (auto dest: split_list)
  with dist have npre: "a \<notin> set pre" and npost: "a \<notin> set post"
    by auto
  define s1 where "s1 = snd (poll_loop P n now pre st)"
  define s2 where "s2 = snd (poll_step P n now a s1)"
  define ida where "ida = doc_id (heap st ! a)"
  from ok have ok_pre: "\<exists>v. fst (poll_loop P n now pre st) = Inr v"
    unfolding as by (auto simp: poll_loop_append_fst split: sum.splits)
  with ok have ok_a: "fst (poll_step P n now a s1) = Inr ()"
    unfolding as s1_def
    by (auto simp: poll_loop_append_fst poll_loop_Cons_fst split: sum.splits)
  from ok_pre ok_a have fin: "snd (poll_loop P n now as st) = snd (poll_loop P n now post s2)"
    unfolding as s1_def s2_def
    by (auto simp: poll_loop_append_snd poll_loop_Cons_snd split: sum.splits)
  have ids1: "doc_id (heap s1 ! b) = doc_id (heap st ! b)" for b
    unfolding s1_def by (rule poll_loop_doc_id)
  have ids2: "doc_id (heap s2 ! b) = doc_id (heap st ! b)" for b
    unfolding s2_def by (simp add: poll_step_doc_id ids1)
  have other: "doc_id (heap st ! b) \<noteq> ida" if "b \<in> set pre \<union> set post" for b
  proof
    assume "doc_id (heap st ! b) = ida"
    moreover from that have "b \<in> set as" by (auto simp: as)
    ultimately have "b = a"
      using inj mem unfolding ida_def by (auto dest: inj_onD)
    with that npre npost show False by auto
  qed
  have h1: "heap s1 ! a = heap st ! a"
    unfolding s1_def using npre by (rule poll_loop_heap_other)
  have l1: "length (heap s1) = length (heap st)"
    unfolding s1_def by (rule poll_loop_len)
  have "ida \<notin> (\<lambda>b. doc_id (heap st ! b)) ` set pre"
    using other by auto
  then have t1: "map_of (docs (tbl s1)) ida = map_of (docs (tbl st)) ida"
    unfolding s1_def by (rule poll_loop_tbl_other)
  have hF: "heap (snd (poll_loop P n now as st)) ! a = heap s2 ! a"
    unfolding fin using npost by (rule poll_loop_heap_other)
  have "ida \<notin> (\<lambda>b. doc_id (heap s2 ! b)) ` set post"
    using other by (auto simp: ids2)
  then have tF: "map_of (docs (tbl (snd (poll_loop P n now as st)))) ida = map_of (docs (tbl s2)) ida"
    unfolding fin by (rule poll_loop_tbl_other)
  show thesis
    using that [of s1] ok_a h1 l1 t1 hF tF unfolding s2_def ida_def by blast
qed

subsection \<open>The poll as a whole\<close>

lemma update_reminders_Inr:
  assumes "update_reminders P dt_now t = (Inr shown, t')"
  obtains rs where
    "init_all (docs t) = Inr rs"
    "fst (poll_loop P dt_now (strftime dt_now TIME_FMT) [0..<length rs]
            \<lparr>heap = rs, reminders_to_show = [], tbl = t\<rparr>) = Inr ()"
    "shown = map (\<lambda>a. heap (snd (poll_loop P dt_now (strftime dt_now TIME_FMT) [0..<length rs]
                                   \<lparr>heap = rs, reminders_to_show = [], tbl = t\<rparr>)) ! a)
               (reminders_to_show (snd (poll_loop P dt_now (strftime dt_now TIME_FMT) [0..<length rs]
                                   \<lparr>heap = rs, reminders_to_show = [], tbl = t\<rparr>)))"
    "t' = tbl (snd (poll_loop P dt_now (strftime dt_now TIME_FMT) [0..<length rs]
                                   \<lparr>heap = rs, reminders_to_show = [], tbl = t\<rparr>))"
  using assms unfolding update_reminders_def
  by (auto split: sum.splits prod.splits)

lemma init_all_sync:
  assumes dist: "distinct (map fst ds)" and init: "init_all ds = Inr rs" and a: "a < length rs"
  shows "map_of ds (doc_id (rs ! a)) = Some (snd (ds ! a))"
    and "Reminder_init (doc_id (rs ! a), snd (ds ! a)) = Inr (rs ! a)"
proof -
  from init have len: "length rs = length ds" by (rule init_all_length)
  with a have a': "a < length ds" by simp
  from init a' have h: "Reminder_init (ds ! a) = Inr (rs ! a)" by (rule init_all_nth)
  obtain i d where p: "ds ! a = (i, d)" by (cases "ds ! a")
  with h have i: "doc_id (rs ! a) = i" by (simp add: Reminder_init_doc_id)
  from a' p have "(i, d) \<in> set ds" by (metis nth_mem)
  with dist show "map_of ds (doc_id (rs ! a)) = Some (snd (ds ! a))"
    by (simp add: i p)
  from h show "Reminder_init (doc_id (rs ! a), snd (ds ! a)) = Inr (rs ! a)"
    by (simp add: i p)
qed

lemma init_all_inj:
  assumes dist: "distinct (map fst ds)" and init: "init_all ds = Inr rs"
  shows "inj_on (\<lambda>b. doc_id (rs ! b)) (set [0..<length rs])"
proof (rule inj_onI)
  fix x y
  assume x: "x \<in> set [0..<length rs]" and y: "y \<in> set [0..<length rs]"
    and eq: "doc_id (rs ! x) = doc_id (rs ! y)"
  from dist init have d: "distinct (map doc_id rs)" by (simp add: init_all_ids)
  from d x y have "(map doc_id rs ! x = map doc_id rs ! y) = (x = y)"
    by (intro nth_eq_iff_index_eq) auto
  with x y eq show "x = y" by simp
qed

lemma Reminder_from_id_found:
  "map_of (docs t) k = Some d \<Longrightarrow> Reminder_init (k, d) = Inr r \<Longrightarrow>
     Reminder_from_id t k = Inr (Some r)"
  by (frule Reminder_init_nonempty)
     (simp add: Reminder_from_id_def table_get_id_def from_doc_def)

lemma Reminder_from_id_absent:
  "map_of (docs t) k = None \<Longrightarrow> Reminder_from_id t k = Inr None"
  by (simp add: Reminder_from_id_def table_get_id_def from_doc_def)

subsection \<open>Effects of one step\<close>

lemma poll_step_not_due:
  "\<not> str_lt (time (heap st ! a)) now \<Longrightarrow> poll_step P n now a st = (Inr (), st)"
  by (simp add: poll_step_def)

lemma poll_step_unparsable:
  "str_lt (time (heap st ! a)) now \<Longrightarrow> P (time (heap st ! a)) = None \<Longrightarrow>
     fst (poll_step P n now a st) = Inl (ToDoException (UnparsableTime (time (heap st ! a))))"
  by (simp add: poll_step_def datetime_from_string_def)

lemma poll_step_ok_parsed:
  "fst (poll_step P n now a st) = Inr u \<Longrightarrow> str_lt (time (heap st ! a)) now \<Longrightarrow>
     \<exists>t0. P (time (heap st ! a)) = Some t0"
  by (cases "P (time (heap st ! a))") (simp_all add: poll_step_unparsable)

lemma poll_step_one_off:
  assumes due: "str_lt (time (heap st ! a)) now"
    and parsed: "P (time (heap st ! a)) = Some t0"
    and off: "next_occurrence n (recurring (heap st ! a)) t0 = None"
    and stored: "map_of (docs (tbl st)) (doc_id (heap st ! a)) = Some d"
    and sync: "Reminder_init (doc_id (heap st ! a), d) = Inr (heap st ! a)"
  shows "poll_step P n now a st =
           (Inr (), st\<lparr>reminders_to_show := reminders_to_show st @ [a],
                      tbl := (tbl st)\<lparr>docs := AList.delete (doc_id (heap st ! a)) (docs (tbl st))\<rparr>\<rparr>)"
  using due parsed off remove_reminder_found [OF stored sync]
  by (simp add: poll_step_def datetime_from_string_def)

lemma set_new_time_ok:
  assumes ok: "fst (set_new_time P a s st) = Inr u"
    and a: "a < length (heap st)"
    and stored: "map_of (docs (tbl st)) (doc_id (heap st ! a)) = Some d"
  obtains t2 where "P s = Some t2"
    and "heap (snd (set_new_time P a s st)) ! a = (heap st ! a)\<lparr>time := strftime t2 TIME_FMT\<rparr>"
    and "map_of (docs (tbl (snd (set_new_time P a s st)))) (doc_id (heap st ! a)) =
           Some (AList.update ''time'' (Str (strftime t2 TIME_FMT)) d)"
proof (cases "P s")
  case None
  with ok show ?thesis
    by (simp add: set_new_time_def datetime_from_string_fmt_def)
next
  case (Some t2)
  with a stored that [of t2] show ?thesis
    by (simp add: set_new_time_def datetime_from_string_fmt_def Let_def table_update_ids_def
                  update_each_single dict_update_single update_conv')
qed

lemma poll_step_recurring_ok:
  assumes ok: "fst (poll_step P n now a st) = Inr u"
    and a: "a < length (heap st)"
    and due: "str_lt (time (heap st ! a)) now"
    and parsed: "P (time (heap st ! a)) = Some t0"
    and nxt: "next_occurrence n (recurring (heap st ! a)) t0 = Some t1"
    and stored: "map_of (docs (tbl st)) (doc_id (heap st ! a)) = Some d"
  obtains t2 where "P (strftime t1 TIME_FMT) = Some t2"
    and "heap (snd (poll_step P n now a st)) ! a = (heap st ! a)\<lparr>time := strftime t2 TIME_FMT\<rparr>"
    and "map_of (docs (tbl (snd (poll_step P n now a st)))) (doc_id (heap st ! a)) =
           Some (AList.update ''time'' (Str (strftime t2 TIME_FMT)) d)"
proof -
  let ?st1 = "st\<lparr>reminders_to_show := reminders_to_show st @ [a]\<rparr>"
  have eq: "poll_step P n now a st = set_new_time P a (strftime t1 TIME_FMT) ?st1"
    using due parsed nxt by (simp add: poll_step_def datetime_from_string_def)
  from ok have ok': "fst (set_new_time P a (strftime t1 TIME_FMT) ?st1) = Inr u"
    by (simp add: eq)
  from a have a': "a < length (heap ?st1)" by simp
  from stored have stored': "map_of (docs (tbl ?st1)) (doc_id (heap ?st1 ! a)) = Some d" by simp
  from set_new_time_ok [OF ok' a' stored'] that show thesis
    unfolding eq by auto
qed

subsection \<open>The catch-up loop\<close>

lemma dt_add_dt_add: "dt_add (dt_add t x) y = dt_add t (x + y)"
  by (simp add: dt_add_def)

lemma dt_add_zero: "dt_add t (timedelta_days 0) = t"
  by (simp add: dt_add_def timedelta_days_def)

lemma timedelta_days_add: "timedelta_days x + timedelta_days y = timedelta_days (x + y)"
  by (simp add: timedelta_days_def algebra_simps)

lemma catch_up_least:
  "0 < n \<Longrightarrow>
     \<exists>j\<ge>0. catch_up n dt_now t = dt_add t (timedelta_days (j * n)) \<and>
            \<not> dt_lt (dt_add t (timedelta_days (j * n))) dt_now \<and>
            (\<forall>i. 0 \<le> i \<and> i < j \<longrightarrow> dt_lt (dt_add t (timedelta_days (i * n))) dt_now)"
proof (induction n dt_now t rule: catch_up.induct)
  case (1 n dt_now t)
  show ?case
  proof (cases "dt_lt t dt_now")
    case False
    then have "catch_up n dt_now t = t"
      by (simp add: catch_up.simps)
    with False show ?thesis
      by (intro exI [of _ 0]) (auto simp: dt_add_zero)
  next
    case True
    let ?t' = "dt_add t (timedelta_days n)"
    from True "1.prems" have unfold: "catch_up n dt_now t = catch_up n dt_now ?t'"
      by (subst catch_up.simps) simp
    from "1.IH" True "1.prems" obtain j where j: "0 \<le> j"
      and res: "catch_up n dt_now ?t' = dt_add ?t' (timedelta_days (j * n))"
      and stop: "\<not> dt_lt (dt_add ?t' (timedelta_days (j * n))) dt_now"
      and before: "\<And>i. 0 \<le> i \<Longrightarrow> i < j \<Longrightarrow> dt_lt (dt_add ?t' (timedelta_days (i * n))) dt_now"
      by blast
    have shift: "dt_add ?t' (timedelta_days (i * n)) = dt_add t (timedelta_days ((i + 1) * n))" for i
      by (simp add: dt_add_dt_add timedelta_days_add algebra_simps)
    have "dt_lt (dt_add t (timedelta_days (i * n))) dt_now" if "0 \<le> i" "i < j + 1" for i
    proof (cases "i = 0")
      case True
      with \<open>dt_lt t dt_now\<close> show ?thesis by (simp add: dt_add_zero)
    next
      case False
      with that have "0 \<le> i - 1" "i - 1 < j" by auto
      then have "dt_lt (dt_add ?t' (timedelta_days ((i - 1) * n))) dt_now" by (rule before)
      then show ?thesis by (simp add: shift)
    qed
    with j res stop show ?thesis
      unfolding unfold shift by (intro exI [of _ "j + 1"]) auto
  qed
qed

subsection \<open>One reminder in a completed poll\<close>

lemma next_occurrence_Some:
  "rec \<in> set recurring_options \<Longrightarrow> \<exists>t1. next_occurrence n rec t0 = Some t1"
  by (auto simp: next_occurrence_def recurring_options_def)

lemma next_occurrence_None:
  "rec \<notin> set recurring_options \<Longrightarrow> next_occurrence n rec t0 = None"
  by (auto simp: next_occurrence_def recurring_options_def)

lemma poll_loop_recurring_at:
  assumes dist: "distinct (map fst (docs t))"
    and init: "init_all (docs t) = Inr rs"
    and ok: "fst (poll_loop P n now [0..<length rs] \<lparr>heap = rs, reminders_to_show = [], tbl = t\<rparr>) = Inr u"
    and a: "a < length rs"
    and due: "str_lt (time (rs ! a)) now"
    and parsed: "P (time (rs ! a)) = Some t0"
    and nxt: "next_occurrence n (recurring (rs ! a)) t0 = Some t1"
  obtains t2 where "P (strftime t1 TIME_FMT) = Some t2"
    and "heap (snd (poll_loop P n now [0..<length rs] \<lparr>heap = rs, reminders_to_show = [], tbl = t\<rparr>)) ! a
           = (rs ! a)\<lparr>time := strftime t2 TIME_FMT\<rparr>"
    and "Reminder_from_id
           (tbl (snd (poll_loop P n now [0..<length rs] \<lparr>heap = rs, reminders_to_show = [], tbl = t\<rparr>)))
           (doc_id (rs ! a))
           = Inr (Some ((rs ! a)\<lparr>time := strftime t2 TIME_FMT\<rparr>))"
proof -
  let ?st0 = "\<lparr>heap = rs, reminders_to_show = [], tbl = t\<rparr>"
  let ?stF = "snd (poll_loop P n now [0..<length rs] ?st0)"
  let ?d = "snd (docs t ! a)"
  from init_all_sync [OF dist init a]
  have stored: "map_of (docs t) (doc_id (rs ! a)) = Some ?d"
    and sync: "Reminder_init (doc_id (rs ! a), ?d) = Inr (rs ! a)" .
  have inj: "inj_on (\<lambda>b. doc_id (heap ?st0 ! b)) (set [0..<length rs])"
    using init_all_inj [OF dist init] by simp
  from a have mem: "a \<in> set [0..<length rs]" by simp
  from poll_loop_at [OF distinct_upt mem inj ok]
  obtain s1 where step: "fst (poll_step P n now a s1) = Inr ()"
    and h1: "heap s1 ! a = rs ! a"
    and l1: "length (heap s1) = length rs"
    and t1: "map_of (docs (tbl s1)) (doc_id (rs ! a)) = map_of (docs t) (doc_id (rs ! a))"
    and hF: "heap ?stF ! a = heap (snd (poll_step P n now a s1)) ! a"
    and tF: "map_of (docs (tbl ?stF)) (doc_id (rs ! a)) =
               map_of (docs (tbl (snd (poll_step P n now a s1)))) (doc_id (rs ! a))"
    by auto
  from a l1 have a1: "a < length (heap s1)" by simp
  from due h1 have due1: "str_lt (time (heap s1 ! a)) now" by simp
  from parsed h1 have parsed1: "P (time (heap s1 ! a)) = Some t0" by simp
  from nxt h1 have nxt1: "next_occurrence n (recurring (heap s1 ! a)) t0 = Some t1" by simp
  from stored t1 h1 have stored1: "map_of (docs (tbl s1)) (doc_id (heap s1 ! a)) = Some ?d" by simp
  from poll_step_recurring_ok [OF step a1 due1 parsed1 nxt1 stored1]
  obtain t2 where p2: "P (strftime t1 TIME_FMT) = Some t2"
    and h2: "heap (snd (poll_step P n now a s1)) ! a = (heap s1 ! a)\<lparr>time := strftime t2 TIME_FMT\<rparr>"
    and d2: "map_of (docs (tbl (snd (poll_step P n now a s1)))) (doc_id (heap s1 ! a)) =
               Some (AList.update ''time'' (Str (strftime t2 TIME_FMT)) ?d)"
    by blast
  from hF h2 h1 have heapF: "heap ?stF ! a = (rs ! a)\<lparr>time := strftime t2 TIME_FMT\<rparr>" by simp
  from tF d2 h1 have "map_of (docs (tbl ?stF)) (doc_id (rs ! a)) =
                        Some (AList.update ''time'' (Str (strftime t2 TIME_FMT)) ?d)" by simp
  moreover from sync have "Reminder_init (doc_id (rs ! a), AList.update ''time'' (Str (strftime t2 TIME_FMT)) ?d)
                             = Inr ((rs ! a)\<lparr>time := strftime t2 TIME_FMT\<rparr>)"
    by (rule Reminder_init_update_time)
  ultimately have "Reminder_from_id (tbl ?stF) (doc_id (rs ! a))
                     = Inr (Some ((rs ! a)\<lparr>time := strftime t2 TIME_FMT\<rparr>))"
    by (rule Reminder_from_id_found)
  with p2 heapF that show thesis by blast
qed

lemma poll_loop_one_off_at:
  assumes dist: "distinct (map fst (docs t))"
    and init: "init_all (docs t) = Inr rs"
    and ok: "fst (poll_loop P n now [0..<length rs] \<lparr>heap = rs, reminders_to_show = [], tbl = t\<rparr>) = Inr u"
    and a: "a < length rs"
    and due: "str_lt (time (rs ! a)) now"
    and off: "recurring (rs ! a) \<notin> set recurring_options"
  shows "heap (snd (poll_loop P n now [0..<length rs] \<lparr>heap = rs, reminders_to_show = [], tbl = t\<rparr>)) ! a
           = rs ! a"
    and "Reminder_from_id
           (tbl (snd (poll_loop P n now [0..<length rs] \<lparr>heap = rs, reminders_to_show = [], tbl = t\<rparr>)))
           (doc_id (rs ! a)) = Inr None"
proof -
  let ?st0 = "\<lparr>heap = rs, reminders_to_show = [], tbl = t\<rparr>"
  let ?stF = "snd (poll_loop P n now [0..<length rs] ?st0)"
  let ?d = "snd (docs t ! a)"
  from init_all_sync [OF dist init a]
  have stored: "map_of (docs t) (doc_id (rs ! a)) = Some ?d"
    and sync: "Reminder_init (doc_id (rs ! a), ?d) = Inr (rs ! a)" .
  have inj: "inj_on (\<lambda>b. doc_id (heap ?st0 ! b)) (set [0..<length rs])"
    using init_all_inj [OF dist init] by simp
  from a have mem: "a \<in> set [0..<length rs]" by simp
  from poll_loop_at [OF distinct_upt mem inj ok]
  obtain s1 where step: "fst (poll_step P n now a s1) = Inr ()"
    and h1: "heap s1 ! a = rs ! a"
    and t1: "map_of (docs (tbl s1)) (doc_id (rs ! a)) = map_of (docs t) (doc_id (rs ! a))"
    and hF: "heap ?stF ! a = heap (snd (poll_step P n now a s1)) ! a"
    and tF: "map_of (docs (tbl ?stF)) (doc_id (rs ! a)) =
               map_of (docs (tbl (snd (poll_step P n now a s1)))) (doc_id (rs ! a))"
    by auto
  from due h1 have due1: "str_lt (time (heap s1 ! a)) now" by simp
  from poll_step_ok_parsed [OF step due1] obtain t0 where parsed1: "P (time (heap s1 ! a)) = Some t0"
    by blast
  from off h1 have off1: "next_occurrence n (recurring (heap s1 ! a)) t0 = None"
    by (simp add: next_occurrence_None)
  from stored t1 h1 have stored1: "map_of (docs (tbl s1)) (doc_id (heap s1 ! a)) = Some ?d" by simp
  from sync h1 have sync1: "Reminder_init (doc_id (heap s1 ! a), ?d) = Inr (heap s1 ! a)" by simp
  note eq = poll_step_one_off [where P = P and st = s1 and a = a and n = n,
                               OF due1 parsed1 off1 stored1 sync1]
  from hF h1 show "heap ?stF ! a = rs ! a"
    by (simp add: eq)
  from tF h1 have "map_of (docs (tbl ?stF)) (doc_id (rs ! a)) = None"
    by (simp add: eq delete_conv')
  then show "Reminder_from_id (tbl ?stF) (doc_id (rs ! a)) = Inr None"
    by (rule Reminder_from_id_absent)
qed

lemma update_reminders_completed:
  assumes init: "init_all (docs t) = Inr rs"
    and poll: "update_reminders P dt_now t = (Inr shown, t')"
  shows "fst (poll_loop P dt_now (strftime dt_now TIME_FMT) [0..<length rs]
                \<lparr>heap = rs, reminders_to_show = [], tbl = t\<rparr>) = Inr ()"
    and "shown = map (\<lambda>a. heap (snd (poll_loop P dt_now (strftime dt_now TIME_FMT) [0..<length rs]
                                       \<lparr>heap = rs, reminders_to_show = [], tbl = t\<rparr>)) ! a)
                   (filter (\<lambda>a. str_lt (time (rs ! a)) (strftime dt_now TIME_FMT)) [0..<length rs])"
    and "t' = tbl (snd (poll_loop P dt_now (strftime dt_now TIME_FMT) [0..<length rs]
                           \<lparr>heap = rs, reminders_to_show = [], tbl = t\<rparr>))"
proof -
  let ?now = "strftime dt_now TIME_FMT"
  let ?st0 = "\<lparr>heap = rs, reminders_to_show = [], tbl = t\<rparr>"
  let ?stF = "snd (poll_loop P dt_now ?now [0..<length rs] ?st0)"
  from poll init show ok: "fst (poll_loop P dt_now ?now [0..<length rs] ?st0) = Inr ()"
    and "t' = tbl ?stF"
    by (auto elim!: update_reminders_Inr)
  from poll init have shown: "shown = map (\<lambda>a. heap ?stF ! a) (reminders_to_show ?stF)"
    by (auto elim!: update_reminders_Inr)
  have "reminders_to_show ?stF = filter (\<lambda>a. str_lt (time (rs ! a)) ?now) [0..<length rs]"
    using poll_loop_show [OF distinct_upt ok] by simp
  with shown show "shown = map (\<lambda>a. heap ?stF ! a)
                             (filter (\<lambda>a. str_lt (time (rs ! a)) ?now) [0..<length rs])"
    by simp
qed

subsection \<open>A poll that stops at an unparsable time\<close>

lemma update_reminders_fst_snd:
  assumes init: "init_all (docs t) = Inr rs"
  shows "snd (update_reminders P dt_now t) =
           tbl (snd (poll_loop P dt_now (strftime dt_now TIME_FMT) [0..<length rs]
                       \<lparr>heap = rs, reminders_to_show = [], tbl = t\<rparr>))"
    and "fst (poll_loop P dt_now (strftime dt_now TIME_FMT) [0..<length rs]
                \<lparr>heap = rs, reminders_to_show = [], tbl = t\<rparr>) = Inl e \<Longrightarrow>
         fst (update_reminders P dt_now t) = Inl e"
  using init unfolding update_reminders_def
  by (auto split: sum.splits prod.splits)

lemma poll_loop_abort_prefix:
  assumes "fst (poll_loop P n now xs st) = Inl e"
  shows "fst (poll_loop P n now (xs @ ys) st) = Inl e"
    and "snd (poll_loop P n now (xs @ ys) st) = snd (poll_loop P n now xs st)"
  using assms by (simp_all add: poll_loop_append_fst poll_loop_append_snd)

lemma poll_loop_abort_at:
  assumes a: "a \<notin> set xs"
    and due: "str_lt (time (heap st ! a)) now"
    and bad: "P (time (heap st ! a)) = None"
  shows "\<exists>e. fst (poll_loop P n now (xs @ [a]) st) = Inl e"
proof -
  let ?s1 = "snd (poll_loop P n now xs st)"
  from a have "heap ?s1 ! a = heap st ! a"
    by (rule poll_loop_heap_other)
  with due bad have "fst (poll_step P n now a ?s1)
                       = Inl (ToDoException (UnparsableTime (time (heap st ! a))))"
    by (simp add: poll_step_unparsable)
  then show ?thesis
    by (simp add: poll_loop_append_fst poll_loop_Cons_fst split: sum.split)
qed

subsection \<open>Tables of one-off reminders\<close>

lemma poll_loop_none_due:
  "\<forall>a\<in>set as. \<not> str_lt (time (heap st ! a)) now \<Longrightarrow> poll_loop P n now as st = (Inr (), st)"
  by (induction as) (simp_all add: poll_loop.simps(2) poll_step_not_due)

lemma init_all_filter:
  "init_all ds = Inr rs \<Longrightarrow>
     \<exists>rs'. init_all (filter Q ds) = Inr rs' \<and>
           (\<forall>r'\<in>set rs'. \<exists>p\<in>set ds. Q p \<and> Reminder_init p = Inr r')"
proof (induction ds arbitrary: rs)
  case Nil
  then show ?case by simp
next
  case (Cons p ds)
  from Cons.prems obtain r rs0 where r: "Reminder_init p = Inr r" and rs0: "init_all ds = Inr rs0"
    by (auto split: sum.splits)
  from Cons.IH [OF rs0] obtain rs' where rs': "init_all (filter Q ds) = Inr rs'"
    and src: "\<forall>r'\<in>set rs'. \<exists>p\<in>set ds. Q p \<and> Reminder_init p = Inr r'"
    by blast
  show ?case
  proof (cases "Q p")
    case True
    with r rs' src show ?thesis
      by (intro exI [of _ "r # rs'"]) auto
  next
    case False
    with rs' src show ?thesis
      by (intro exI [of _ rs']) auto
  qed
qed

lemma init_all_member:
  assumes init: "init_all ds = Inr rs" and p: "p \<in> set ds" and r: "Reminder_init p = Inr r"
  shows "r \<in> set rs"
proof -
  from p obtain k where k: "k < length ds" and pk: "ds ! k = p"
    by (auto simp: in_set_conv_nth)
  from init_all_nth [OF init k] pk r have "rs ! k = r" by simp
  moreover from init k have "k < length rs" by (simp add: init_all_length)
  ultimately show ?thesis by (metis nth_mem)
qed

lemma poll_loop_one_off_all:
  assumes "distinct as"
    and "inj_on (\<lambda>b. doc_id (heap st ! b)) (set as)"
    and "\<forall>a\<in>set as. \<exists>d. map_of (docs (tbl st)) (doc_id (heap st ! a)) = Some d \<and>
                          Reminder_init (doc_id (heap st ! a), d) = Inr (heap st ! a)"
    and "\<forall>a\<in>set as. recurring (heap st ! a) \<notin> set recurring_options"
    and "\<forall>a\<in>set as. str_lt (time (heap st ! a)) now \<longrightarrow> P (time (heap st ! a)) \<noteq> None"
  shows "poll_loop P n now as st =
           (Inr (),
            st\<lparr>reminders_to_show :=
                 reminders_to_show st @ filter (\<lambda>a. str_lt (time (heap st ! a)) now) as,
               tbl := (tbl st)\<lparr>docs :=
                 filter (\<lambda>p. fst p \<notin> (\<lambda>a. doc_id (heap st ! a)) `
                                         {a \<in> set as. str_lt (time (heap st ! a)) now})
                        (docs (tbl st))\<rparr>\<rparr>)"
  using assms
proof (induction as arbitrary: st)
  case Nil
  then show ?case by simp
next
  case (Cons a as)
  let ?due = "\<lambda>st a. str_lt (time (heap st ! a)) now"
  let ?ida = "doc_id (heap st ! a)"
  show ?case
  proof (cases "?due st a")
    case False
    then have step: "poll_step P n now a st = (Inr (), st)"
      by (rule poll_step_not_due)
    from False have "{b \<in> set (a # as). ?due st b} = {b \<in> set as. ?due st b}"
      by auto
    moreover have "poll_loop P n now as st =
           (Inr (),
            st\<lparr>reminders_to_show := reminders_to_show st @ filter (?due st) as,
               tbl := (tbl st)\<lparr>docs :=
                 filter (\<lambda>p. fst p \<notin> (\<lambda>a. doc_id (heap st ! a)) ` {a \<in> set as. ?due st a})
                        (docs (tbl st))\<rparr>\<rparr>)"
      using Cons.prems by (intro Cons.IH) (auto simp: inj_on_def)
    ultimately show ?thesis
      using False by (simp add: poll_loop.simps(2) step)
  next
    case True
    from Cons.prems(3) obtain d where stored: "map_of (docs (tbl st)) ?ida = Some d"
      and sync: "Reminder_init (?ida, d) = Inr (heap st ! a)"
      by auto
    from Cons.prems(5) True obtain t0 where parsed: "P (time (heap st ! a)) = Some t0"
      by auto
    from Cons.prems(4) have off: "next_occurrence n (recurring (heap st ! a)) t0 = None"
      by (simp add: next_occurrence_None)
    define st1 where "st1 = st\<lparr>reminders_to_show := reminders_to_show st @ [a],
                        tbl := (tbl st)\<lparr>docs := AList.delete ?ida (docs (tbl st))\<rparr>\<rparr>"
    have step: "poll_step P n now a st = (Inr (), st1)"
      unfolding st1_def using True parsed off stored sync by (rule poll_step_one_off)
    have heap1: "heap st1 = heap st"
      by (simp add: st1_def)
    have other: "doc_id (heap st ! b) \<noteq> ?ida" if "b \<in> set as" for b
    proof
      assume eq: "doc_id (heap st ! b) = ?ida"
      from that have mem: "b \<in> set (a # as)" "a \<in> set (a # as)"
        by simp_all
      from inj_onD [OF Cons.prems(2) eq mem] have "b = a" .
      with Cons.prems(1) that show False by simp
    qed
    have "poll_loop P n now as st1 =
           (Inr (),
            st1\<lparr>reminders_to_show := reminders_to_show st1 @ filter (?due st1) as,
                tbl := (tbl st1)\<lparr>docs :=
                  filter (\<lambda>p. fst p \<notin> (\<lambda>a. doc_id (heap st1 ! a)) ` {a \<in> set as. ?due st1 a})
                         (docs (tbl st1))\<rparr>\<rparr>)"
    proof (intro Cons.IH)
      show "distinct as" using Cons.prems(1) by simp
      show "inj_on (\<lambda>b. doc_id (heap st1 ! b)) (set as)"
        using Cons.prems(2) by (simp add: heap1 inj_on_def)
      show "\<forall>b\<in>set as. \<exists>d. map_of (docs (tbl st1)) (doc_id (heap st1 ! b)) = Some d \<and>
                          Reminder_init (doc_id (heap st1 ! b), d) = Inr (heap st1 ! b)"
        using Cons.prems(3) other by (simp add: heap1 st1_def delete_conv')
      show "\<forall>b\<in>set as. recurring (heap st1 ! b) \<notin> set recurring_options"
        using Cons.prems(4) by (simp add: heap1)
      show "\<forall>b\<in>set as. ?due st1 b \<longrightarrow> P (time (heap st1 ! b)) \<noteq> None"
        using Cons.prems(5) by (simp add: heap1)
    qed
    moreover have "filter (\<lambda>p. fst p \<notin> (\<lambda>a. doc_id (heap st ! a)) ` {a \<in> set as. ?due st a})
                     (AList.delete ?ida (docs (tbl st)))
                   = filter (\<lambda>p. fst p \<notin> (\<lambda>a. doc_id (heap st ! a)) ` {b \<in> set (a # as). ?due st b})
                       (docs (tbl st))"
      using True by (auto simp: AList.delete_eq intro!: filter_cong)
    ultimately show ?thesis
      using True by (simp add: poll_loop.simps(2) step heap1) (simp add: st1_def)
  qed
qed

lemma map_nth_filter:
  "map (\<lambda>a. rs ! a) (filter (\<lambda>a. Q (rs ! a)) [0..<length rs]) = filter Q rs"
proof -
  have "map (\<lambda>a. rs ! a) (filter (\<lambda>a. Q (rs ! a)) [0..<length rs])
          = filter Q (map (\<lambda>a. rs ! a) [0..<length rs])"
    by (simp add: filter_map comp_def)
  also have "map (\<lambda>a. rs ! a) [0..<length rs] = rs"
    by (rule map_nth)
  finally show ?thesis .
qed

lemma update_reminders_none_due:
  assumes init: "init_all (docs t) = Inr rs"
    and none: "\<forall>r\<in>set rs. \<not> str_lt (time r) (strftime dt_now TIME_FMT)"
  shows "update_reminders P dt_now t = (Inr [], t)"
proof -
  let ?st0 = "\<lparr>heap = rs, reminders_to_show = [], tbl = t\<rparr>"
  from none have "\<forall>a\<in>set [0..<length rs]. \<not> str_lt (time (heap ?st0 ! a)) (strftime dt_now TIME_FMT)"
    by simp
  then have "poll_loop P dt_now (strftime dt_now TIME_FMT) [0..<length rs] ?st0 = (Inr (), ?st0)"
    by (rule poll_loop_none_due)
  with init show ?thesis
    unfolding update_reminders_def by simp
qed

lemma update_reminders_one_off_table:
  assumes dist: "distinct (map fst (docs t))"
    and init: "init_all (docs t) = Inr rs"
    and off: "\<forall>r\<in>set rs. recurring r \<notin> set recurring_options"
    and parse: "\<forall>r\<in>set rs. str_lt (time r) (strftime dt_now TIME_FMT) \<longrightarrow> P (time r) \<noteq> None"
  shows "update_reminders P dt_now t =
           (Inr (filter (\<lambda>r. str_lt (time r) (strftime dt_now TIME_FMT)) rs),
            t\<lparr>docs := filter (\<lambda>p. fst p \<notin> doc_id ` {r \<in> set rs. str_lt (time r) (strftime dt_now TIME_FMT)})
                          (docs t)\<rparr>)"
proof -
  define now where "now = strftime dt_now TIME_FMT"
  let ?st0 = "\<lparr>heap = rs, reminders_to_show = [], tbl = t\<rparr>"
  have inj: "inj_on (\<lambda>b. doc_id (heap ?st0 ! b)) (set [0..<length rs])"
    using init_all_inj [OF dist init] by simp
  have sync: "\<forall>a\<in>set [0..<length rs].
                \<exists>d. map_of (docs (tbl ?st0)) (doc_id (heap ?st0 ! a)) = Some d \<and>
                    Reminder_init (doc_id (heap ?st0 ! a), d) = Inr (heap ?st0 ! a)"
    using init_all_sync [OF dist init] by auto
  have off': "\<forall>a\<in>set [0..<length rs]. recurring (heap ?st0 ! a) \<notin> set recurring_options"
    using off by simp
  have parse': "\<forall>a\<in>set [0..<length rs].
                  str_lt (time (heap ?st0 ! a)) now \<longrightarrow> P (time (heap ?st0 ! a)) \<noteq> None"
    using parse by (simp add: now_def del: strftime.simps)
  have ids: "(\<lambda>a. doc_id (rs ! a)) ` {a. a < length rs \<and> str_lt (time (rs ! a)) now}
               = doc_id ` {r \<in> set rs. str_lt (time r) now}"
    by (auto simp: in_set_conv_nth image_iff)
  have "poll_loop P dt_now now [0..<length rs] ?st0 =
          (Inr (),
           ?st0\<lparr>reminders_to_show :=
                   reminders_to_show ?st0 @ filter (\<lambda>a. str_lt (time (heap ?st0 ! a)) now) [0..<length rs],
                 tbl := (tbl ?st0)\<lparr>docs :=
                   filter (\<lambda>p. fst p \<notin> (\<lambda>a. doc_id (heap ?st0 ! a)) `
                                           {a \<in> set [0..<length rs]. str_lt (time (heap ?st0 ! a)) now})
                          (docs (tbl ?st0))\<rparr>\<rparr>)"
    using distinct_upt inj sync off' parse' by (rule poll_loop_one_off_all)
  then have "poll_loop P dt_now now [0..<length rs] ?st0 =
          (Inr (),
           \<lparr>heap = rs,
            reminders_to_show = filter (\<lambda>a. str_lt (time (rs ! a)) now) [0..<length rs],
            tbl = t\<lparr>docs := filter (\<lambda>p. fst p \<notin> doc_id ` {r \<in> set rs. str_lt (time r) now}) (docs t)\<rparr>\<rparr>)"
    by (simp add: ids)
  with init show ?thesis
    unfolding update_reminders_def now_def [symmetric]
    by (simp add: map_nth_filter [of rs "\<lambda>r. str_lt (time r) now"])
qed

section \<open>The claims\<close>

text \<open>
  C8 (amended). A poll that completes returns exactly the reminders whose stored time
  string is strictly less than the formatted current time, in the order of the table.
\<close>

theorem poll_returns_reminders_strictly_before_now:
  assumes init: "init_all (docs t) = Inr rs"
    and poll: "update_reminders P dt_now t = (Inr shown, t')"
  shows "map doc_id shown =
           map doc_id (filter (\<lambda>r. str_lt (time r) (strftime dt_now TIME_FMT)) rs)"
proof -
  let ?now = "strftime dt_now TIME_FMT"
  let ?st0 = "\<lparr>heap = rs, reminders_to_show = [], tbl = t\<rparr>"
  let ?stF = "snd (poll_loop P dt_now ?now [0..<length rs] ?st0)"
  from poll init have ok: "fst (poll_loop P dt_now ?now [0..<length rs] ?st0) = Inr ()"
    and shown: "shown = map (\<lambda>a. heap ?stF ! a) (reminders_to_show ?stF)"
    by (auto elim!: update_reminders_Inr)
  have "reminders_to_show ?stF = filter (\<lambda>a. str_lt (time (rs ! a)) ?now) [0..<length rs]"
    using poll_loop_show [OF distinct_upt ok] by simp
  then have "map doc_id shown =
               map (\<lambda>a. doc_id (rs ! a)) (filter (\<lambda>a. str_lt (time (rs ! a)) ?now) [0..<length rs])"
    unfolding shown by (simp add: poll_loop_doc_id comp_def)
  also have "\<dots> = map doc_id (filter (\<lambda>r. str_lt (time r) ?now) (map (\<lambda>a. rs ! a) [0..<length rs]))"
    by (simp add: filter_map comp_def)
  also have "map (\<lambda>a. rs ! a) [0..<length rs] = rs"
    by (rule map_nth)
  finally show ?thesis .
qed

theorem poll_returns_reminders_strictly_before_now_witness:
  "init_all (docs \<lparr>docs = [(1, reminder_doc ''2024-01-18 10:00:00'' ''off''),
                           (2, reminder_doc ''2024-01-15 10:00:00'' ''off'')],
                   next_id = Some 3\<rparr>)
     = Inr [example_reminder 1 ''2024-01-18 10:00:00'' ''off'',
            example_reminder 2 ''2024-01-15 10:00:00'' ''off''] \<and>
   update_reminders example_parser (aware 2024 1 18 10 0 0 0 3600)
       \<lparr>docs = [(1, reminder_doc ''2024-01-18 10:00:00'' ''off''),
                (2, reminder_doc ''2024-01-15 10:00:00'' ''off'')],
        next_id = Some 3\<rparr>
     = (Inr [example_reminder 2 ''2024-01-15 10:00:00'' ''off''],
        \<lparr>docs = [(1, reminder_doc ''2024-01-18 10:00:00'' ''off'')], next_id = Some 3\<rparr>) \<and>
   map doc_id [example_reminder 2 ''2024-01-15 10:00:00'' ''off''] =
     map doc_id (filter (\<lambda>r. str_lt (time r) (strftime (aware 2024 1 18 10 0 0 0 3600) TIME_FMT))
                   [example_reminder 1 ''2024-01-18 10:00:00'' ''off'',
                    example_reminder 2 ''2024-01-15 10:00:00'' ''off''])"
proof -
  let ?t = "\<lparr>docs = [(1, reminder_doc ''2024-01-18 10:00:00'' ''off''),
                    (2, reminder_doc ''2024-01-15 10:00:00'' ''off'')],
            next_id = Some 3\<rparr>"
  have init: "init_all (docs ?t)
                = Inr [example_reminder 1 ''2024-01-18 10:00:00'' ''off'',
                       example_reminder 2 ''2024-01-15 10:00:00'' ''off'']"
    by code_simp
  have poll: "update_reminders example_parser (aware 2024 1 18 10 0 0 0 3600) ?t
                = (Inr [example_reminder 2 ''2024-01-15 10:00:00'' ''off''],
                   \<lparr>docs = [(1, reminder_doc ''2024-01-18 10:00:00'' ''off'')], next_id = Some 3\<rparr>)"
    by code_simp
  from poll_returns_reminders_strictly_before_now [OF init poll] init poll
  show ?thesis by blast
qed

text \<open>
  C8 (as stated) fails: a reminder whose stored time equals the formatted current time is
  not returned by the poll.
\<close>

theorem poll_skips_reminder_at_now_counterexample:
  "strftime (aware 2024 1 18 10 0 0 0 3600) TIME_FMT = ''2024-01-18 10:00:00'' \<and>
   update_reminders example_parser (aware 2024 1 18 10 0 0 0 3600)
       \<lparr>docs = [(1, reminder_doc ''2024-01-18 10:00:00'' ''off'')], next_id = Some 2\<rparr>
     = (Inr [], \<lparr>docs = [(1, reminder_doc ''2024-01-18 10:00:00'' ''off'')], next_id = Some 2\<rparr>)"
  by code_simp

text \<open>
  C4 (amended). In a poll that completes, a returned reminder that is recurring is the
  object whose time the scheduler has advanced: looking its id up in the table after the
  poll gives the very same reminder, with the same (advanced) time.
\<close>

theorem returned_recurring_reminder_carries_advanced_time:
  assumes dist: "distinct (map fst (docs t))"
    and poll: "update_reminders P dt_now t = (Inr shown, t')"
    and r: "r \<in> set shown"
    and rec: "recurring r \<in> set recurring_options"
  shows "Reminder_from_id t' (doc_id r) = Inr (Some r)"
proof -
  let ?now = "strftime dt_now TIME_FMT"
  from poll obtain rs where init: "init_all (docs t) = Inr rs"
    by (auto elim: update_reminders_Inr)
  let ?st0 = "\<lparr>heap = rs, reminders_to_show = [], tbl = t\<rparr>"
  let ?stF = "snd (poll_loop P dt_now ?now [0..<length rs] ?st0)"
  note fin = update_reminders_completed [OF init poll]
  from r fin(2) obtain a where a: "a < length rs"
    and due: "str_lt (time (rs ! a)) ?now"
    and ra: "r = heap ?stF ! a"
    by auto
  have "recurring (heap ?stF ! a) = recurring (rs ! a)"
    by (simp add: poll_loop_recurring)
  with rec ra have rec': "recurring (rs ! a) \<in> set recurring_options" by simp
  have "doc_id (heap ?stF ! a) = doc_id (rs ! a)"
    by (simp add: poll_loop_doc_id)
  with ra have id: "doc_id r = doc_id (rs ! a)" by simp
  have inj: "inj_on (\<lambda>b. doc_id (heap ?st0 ! b)) (set [0..<length rs])"
    using init_all_inj [OF dist init] by simp
  from a have mem: "a \<in> set [0..<length rs]" by simp
  from poll_loop_at [OF distinct_upt mem inj fin(1)]
  obtain s1 where step: "fst (poll_step P dt_now ?now a s1) = Inr ()"
    and h1: "heap s1 ! a = rs ! a"
    by auto
  from poll_step_ok_parsed [OF step] due h1 obtain t0 where parsed: "P (time (rs ! a)) = Some t0"
    by auto
  from next_occurrence_Some [OF rec'] obtain t1
    where nxt: "next_occurrence dt_now (recurring (rs ! a)) t0 = Some t1"
    by blast
  from poll_loop_recurring_at [OF dist init fin(1) a due parsed nxt]
  obtain t2 where "heap ?stF ! a = (rs ! a)\<lparr>time := strftime t2 TIME_FMT\<rparr>"
    and "Reminder_from_id (tbl ?stF) (doc_id (rs ! a)) = Inr (Some ((rs ! a)\<lparr>time := strftime t2 TIME_FMT\<rparr>))"
    by blast
  with ra id fin(3) show ?thesis by simp
qed

text \<open>
  C7 (amended). A due daily reminder whose time the parser reads as \<open>t0\<close>, in a poll that
  completes and with a parser that reads the advanced time back as it is written: the
  stored time becomes \<open>t0\<close> plus \<open>j\<close> days for the least \<open>j \<ge> 0\<close> that is not before the
  current instant (at or after it, not necessarily after it).
\<close>

theorem daily_reminder_advanced_to_first_occurrence_not_before_now:
  assumes dist: "distinct (map fst (docs t))"
    and init: "init_all (docs t) = Inr rs"
    and a: "a < length rs"
    and daily: "recurring (rs ! a) = ''daily''"
    and due: "str_lt (time (rs ! a)) (strftime dt_now TIME_FMT)"
    and parsed: "P (time (rs ! a)) = Some t0"
    and readback: "map_option (\<lambda>d. strftime d TIME_FMT) (P (strftime (catch_up 1 dt_now t0) TIME_FMT))
                 = Some (strftime (catch_up 1 dt_now t0) TIME_FMT)"
    and poll: "update_reminders P dt_now t = (Inr shown, t')"
  shows "\<exists>j\<ge>0. Reminder_from_id t' (doc_id (rs ! a))
                  = Inr (Some ((rs ! a)\<lparr>time := strftime (dt_add t0 (timedelta_days j)) TIME_FMT\<rparr>)) \<and>
               \<not> dt_lt (dt_add t0 (timedelta_days j)) dt_now \<and>
               (\<forall>i. 0 \<le> i \<and> i < j \<longrightarrow> dt_lt (dt_add t0 (timedelta_days i)) dt_now)"
proof -
  let ?now = "strftime dt_now TIME_FMT"
  let ?st0 = "\<lparr>heap = rs, reminders_to_show = [], tbl = t\<rparr>"
  let ?stF = "snd (poll_loop P dt_now ?now [0..<length rs] ?st0)"
  let ?t1 = "catch_up 1 dt_now t0"
  note fin = update_reminders_completed [OF init poll]
  from daily have nxt: "next_occurrence dt_now (recurring (rs ! a)) t0 = Some ?t1"
    by (simp add: next_occurrence_def)
  from poll_loop_recurring_at [OF dist init fin(1) a due parsed nxt]
  obtain t2 where p2: "P (strftime ?t1 TIME_FMT) = Some t2"
    and stored: "Reminder_from_id (tbl ?stF) (doc_id (rs ! a))
                   = Inr (Some ((rs ! a)\<lparr>time := strftime t2 TIME_FMT\<rparr>))"
    by blast
  from readback p2 have same: "strftime t2 TIME_FMT = strftime ?t1 TIME_FMT" by simp
  from catch_up_least [of 1 dt_now t0] obtain j where j: "0 \<le> j"
    and res: "?t1 = dt_add t0 (timedelta_days j)"
    and stop: "\<not> dt_lt (dt_add t0 (timedelta_days j)) dt_now"
    and before: "\<forall>i. 0 \<le> i \<and> i < j \<longrightarrow> dt_lt (dt_add t0 (timedelta_days i)) dt_now"
    by auto
  from stored same res fin(3)
  have "Reminder_from_id t' (doc_id (rs ! a))
          = Inr (Some ((rs ! a)\<lparr>time := strftime (dt_add t0 (timedelta_days j)) TIME_FMT\<rparr>))"
    by simp
  with j stop before show ?thesis by blast
qed

text \<open>
  C5 (amended). When the time of a due reminder cannot be parsed, the poll raises: it
  returns no list of due reminders at all, and the reminders stored after that record are
  left in the table as they were, not processed.
\<close>

theorem poll_aborts_at_unparsable_time:
  assumes dist: "distinct (map fst (docs t))"
    and init: "init_all (docs t) = Inr rs"
    and k: "k < length rs"
    and due: "str_lt (time (rs ! k)) (strftime dt_now TIME_FMT)"
    and bad: "P (time (rs ! k)) = None"
  shows "(\<exists>e. fst (update_reminders P dt_now t) = Inl e) \<and>
         (\<forall>j. k < j \<and> j < length rs \<longrightarrow>
              Reminder_from_id (snd (update_reminders P dt_now t)) (doc_id (rs ! j))
                = Inr (Some (rs ! j)))"
proof -
  let ?now = "strftime dt_now TIME_FMT"
  let ?st0 = "\<lparr>heap = rs, reminders_to_show = [], tbl = t\<rparr>"
  let ?sK = "snd (poll_loop P dt_now ?now [0..<Suc k] ?st0)"
  have "\<exists>e. fst (poll_loop P dt_now ?now ([0..<k] @ [k]) ?st0) = Inl e"
    using due bad by (intro poll_loop_abort_at) simp_all
  then obtain e where failK: "fst (poll_loop P dt_now ?now [0..<Suc k] ?st0) = Inl e"
    by (auto simp del: strftime.simps)
  from k have len: "Suc k + (length rs - Suc k) = length rs"
    by simp
  have split: "[0..<length rs] = [0..<Suc k] @ [Suc k..<length rs]"
    using upt_add_eq_append [of 0 "Suc k" "length rs - Suc k"]
    by (simp only: len le0)
  from failK have fail: "fst (poll_loop P dt_now ?now [0..<length rs] ?st0) = Inl e"
    and fin: "snd (poll_loop P dt_now ?now [0..<length rs] ?st0) = ?sK"
    unfolding split by (rule poll_loop_abort_prefix)+
  from update_reminders_fst_snd(2) [OF init fail]
  have 1: "\<exists>e. fst (update_reminders P dt_now t) = Inl e" by blast
  have 2: "Reminder_from_id (snd (update_reminders P dt_now t)) (doc_id (rs ! j)) = Inr (Some (rs ! j))"
    if j: "k < j" "j < length rs" for j
  proof -
    have "doc_id (rs ! j) \<notin> (\<lambda>b. doc_id (heap ?st0 ! b)) ` set [0..<Suc k]"
    proof
      assume "doc_id (rs ! j) \<in> (\<lambda>b. doc_id (heap ?st0 ! b)) ` set [0..<Suc k]"
      then obtain b where "b \<in> set [0..<Suc k]"
        and "doc_id (rs ! j) = doc_id (heap ?st0 ! b)"
        by (rule imageE)
      then have b: "b < Suc k" and eq: "doc_id (rs ! j) = doc_id (rs ! b)"
        by auto
      from init_all_inj [OF dist init] j k b eq have "j = b"
        by (auto dest!: inj_onD [where x = j and y = b])
      with j b show False by simp
    qed
    then have "map_of (docs (tbl ?sK)) (doc_id (rs ! j)) = map_of (docs (tbl ?st0)) (doc_id (rs ! j))"
      by (rule poll_loop_tbl_other)
    with init_all_sync [OF dist init j(2)]
    have "map_of (docs (tbl ?sK)) (doc_id (rs ! j)) = Some (snd (docs t ! j))"
      and "Reminder_init (doc_id (rs ! j), snd (docs t ! j)) = Inr (rs ! j)"
      by simp_all
    then have "Reminder_from_id (tbl ?sK) (doc_id (rs ! j)) = Inr (Some (rs ! j))"
      by (rule Reminder_from_id_found)
    then show ?thesis
      unfolding update_reminders_fst_snd(1) [OF init] fin .
  qed
  from 1 2 show ?thesis by blast
qed

text \<open>
  C6. In any table, a poll that completes returns every due reminder that is not recurring,
  as it was stored, and leaves no reminder under its id. In a table of reminders that are
  not recurring and whose due times parse, the poll completes and returns exactly the due
  reminders, and a second poll at the same instant returns the empty list and changes
  nothing.
\<close>

theorem one_off_due_reminders_are_returned_once:
  assumes dist: "distinct (map fst (docs t))"
    and init: "init_all (docs t) = Inr rs"
  shows "(\<forall>shown t'. update_reminders P dt_now t = (Inr shown, t') \<longrightarrow>
            (\<forall>r\<in>set rs. str_lt (time r) (strftime dt_now TIME_FMT) \<and>
                          recurring r \<notin> set recurring_options \<longrightarrow>
                 r \<in> set shown \<and> Reminder_from_id t' (doc_id r) = Inr None)) \<and>
         ((\<forall>r\<in>set rs. recurring r \<notin> set recurring_options \<and>
                        (str_lt (time r) (strftime dt_now TIME_FMT) \<longrightarrow> P (time r) \<noteq> None)) \<longrightarrow>
            (\<exists>t'. update_reminders P dt_now t =
                     (Inr (filter (\<lambda>r. str_lt (time r) (strftime dt_now TIME_FMT)) rs), t') \<and>
                   update_reminders P dt_now t' = (Inr [], t')))"
proof (intro conjI allI impI ballI)
  fix shown t' r
  assume poll: "update_reminders P dt_now t = (Inr shown, t')"
    and r: "r \<in> set rs"
    and one_off: "str_lt (time r) (strftime dt_now TIME_FMT) \<and> recurring r \<notin> set recurring_options"
  define now where "now = strftime dt_now TIME_FMT"
  let ?st0 = "\<lparr>heap = rs, reminders_to_show = [], tbl = t\<rparr>"
  let ?stF = "snd (poll_loop P dt_now now [0..<length rs] ?st0)"
  note fin = update_reminders_completed [OF init poll, folded now_def]
  from r obtain a where a: "a < length rs" and ra: "rs ! a = r"
    by (auto simp: in_set_conv_nth)
  from one_off ra have due: "str_lt (time (rs ! a)) now"
    and off: "recurring (rs ! a) \<notin> set recurring_options"
    by (simp_all add: now_def del: strftime.simps)
  note at = poll_loop_one_off_at [OF dist init fin(1) a due off]
  from a due have "a \<in> set (filter (\<lambda>a. str_lt (time (rs ! a)) now) [0..<length rs])"
    by simp
  then have "heap ?stF ! a \<in> (\<lambda>a. heap ?stF ! a) ` set (filter (\<lambda>a. str_lt (time (rs ! a)) now) [0..<length rs])"
    by (rule imageI)
  then have "heap ?stF ! a \<in> set shown"
    unfolding fin(2) set_map .
  with at(1) ra show "r \<in> set shown" by simp
  from at(2) ra fin(3) show "Reminder_from_id t' (doc_id r) = Inr None" by simp
next
  assume all: "\<forall>r\<in>set rs. recurring r \<notin> set recurring_options \<and>
                 (str_lt (time r) (strftime dt_now TIME_FMT) \<longrightarrow> P (time r) \<noteq> None)"
  define now where "now = strftime dt_now TIME_FMT"
  define D where "D = doc_id ` {r \<in> set rs. str_lt (time r) now}"
  define t' where "t' = t\<lparr>docs := filter (\<lambda>p. fst p \<notin> D) (docs t)\<rparr>"
  from all have off: "\<forall>r\<in>set rs. recurring r \<notin> set recurring_options"
    and parse: "\<forall>r\<in>set rs. str_lt (time r) (strftime dt_now TIME_FMT) \<longrightarrow> P (time r) \<noteq> None"
    by blast+
  have first: "update_reminders P dt_now t = (Inr (filter (\<lambda>r. str_lt (time r) now) rs), t')"
    unfolding t'_def D_def now_def
    using dist init off parse by (rule update_reminders_one_off_table)
  from init_all_filter [OF init, of "\<lambda>p. fst p \<notin> D"]
  obtain rs' where init': "init_all (docs t') = Inr rs'"
    and src: "\<forall>r'\<in>set rs'. \<exists>p\<in>set (docs t). fst p \<notin> D \<and> Reminder_init p = Inr r'"
    by (auto simp: t'_def)
  have "\<not> str_lt (time r') now" if "r' \<in> set rs'" for r'
  proof
    assume due: "str_lt (time r') now"
    from src that obtain p where p: "p \<in> set (docs t)" and nD: "fst p \<notin> D"
      and r': "Reminder_init p = Inr r'"
      by blast
    from init p r' have "r' \<in> set rs" by (rule init_all_member)
    with due have "doc_id r' \<in> D" by (simp add: D_def)
    moreover from r' have "doc_id r' = fst p"
      by (cases p) (simp add: Reminder_init_doc_id)
    ultimately show False using nD by simp
  qed
  then have "\<forall>r\<in>set rs'. \<not> str_lt (time r) (strftime dt_now TIME_FMT)"
    by (simp add: now_def del: strftime.simps)
  with init' have second: "update_reminders P dt_now t' = (Inr [], t')"
    by (rule update_reminders_none_due)
  from first second
  show "\<exists>t'. update_reminders P dt_now t =
                (Inr (filter (\<lambda>r. str_lt (time r) (strftime dt_now TIME_FMT)) rs), t') \<and>
              update_reminders P dt_now t' = (Inr [], t')"
    unfolding now_def by blast
qed

end
